theory Spec2Isabelle
  imports Complex_Main "HOL-Library.AList"
begin

section \<open>Strings as Python handles them\<close>

text \<open>
  Text is a list of characters, each a code point from 0 to 255 (Latin-1), and the length
  of a string is its number of code points, as in Python. On these code points
  \<open>isspace\<close> is Python's \<open>str.isspace\<close> (the characters \<open>strip\<close> removes and the
  regular expression \<open>\s\<close> matches): the ASCII whitespace, the separators 0x1C to 0x1F,
  the next-line character 0x85 and the no-break space 0xA0. And \<open>lower_char\<close> is
  Python's \<open>str.lower\<close>: \<open>A\<close>..\<open>Z\<close> and the capitals 0xC0 to 0xDE (without the
  multiplication sign 0xD7) move up by 32, every other character stays.
\<close>

definition isspace :: "char \<Rightarrow> bool" where
  "isspace c \<longleftrightarrow>
     c \<in> set [CHR '' '', CHR 0x09, CHR 0x0A, CHR 0x0B, CHR 0x0C, CHR 0x0D,
               CHR 0x1C, CHR 0x1D, CHR 0x1E, CHR 0x1F, CHR 0x85, CHR 0xA0]"

definition upper_latin1 :: string where
  "upper_latin1 =
     ''ABCDEFGHIJKLMNOPQRSTUVWXYZ'' @
     [CHR 0xC0, CHR 0xC1, CHR 0xC2, CHR 0xC3, CHR 0xC4, CHR 0xC5, CHR 0xC6, CHR 0xC7,
      CHR 0xC8, CHR 0xC9, CHR 0xCA, CHR 0xCB, CHR 0xCC, CHR 0xCD, CHR 0xCE, CHR 0xCF,
      CHR 0xD0, CHR 0xD1, CHR 0xD2, CHR 0xD3, CHR 0xD4, CHR 0xD5, CHR 0xD6, CHR 0xD8,
      CHR 0xD9, CHR 0xDA, CHR 0xDB, CHR 0xDC, CHR 0xDD, CHR 0xDE]"

definition lower_latin1 :: string where
  "lower_latin1 =
     ''abcdefghijklmnopqrstuvwxyz'' @
     [CHR 0xE0, CHR 0xE1, CHR 0xE2, CHR 0xE3, CHR 0xE4, CHR 0xE5, CHR 0xE6, CHR 0xE7,
      CHR 0xE8, CHR 0xE9, CHR 0xEA, CHR 0xEB, CHR 0xEC, CHR 0xED, CHR 0xEE, CHR 0xEF,
      CHR 0xF0, CHR 0xF1, CHR 0xF2, CHR 0xF3, CHR 0xF4, CHR 0xF5, CHR 0xF6, CHR 0xF8,
      CHR 0xF9, CHR 0xFA, CHR 0xFB, CHR 0xFC, CHR 0xFD, CHR 0xFE]"

definition lower_char :: "char \<Rightarrow> char" where
  "lower_char c = (case map_of (zip upper_latin1 lower_latin1) c of None \<Rightarrow> c | Some d \<Rightarrow> d)"

text \<open>\<open>s.lower()\<close>\<close>

definition str_lower :: "string \<Rightarrow> string" where
  "str_lower s = map lower_char s"

text \<open>\<open>s.strip()\<close>\<close>

definition str_strip :: "string \<Rightarrow> string" where
  "str_strip s = rev (dropWhile isspace (rev (dropWhile isspace s)))"

text \<open>\<open>s.startswith(k)\<close>, and \<open>k in s\<close> for strings.\<close>

fun startswith :: "string \<Rightarrow> string \<Rightarrow> bool" where
  "startswith s [] = True"
| "startswith [] (k # ks) = False"
| "startswith (c # cs) (k # ks) = (c = k \<and> startswith cs ks)"

fun str_in :: "string \<Rightarrow> string \<Rightarrow> bool" where
  "str_in k [] = (k = [])"
| "str_in k (c # cs) = (startswith (c # cs) k \<or> str_in k cs)"

text \<open>\<open>s.split('\n')\<close>: one more piece than there are newlines, never an empty list.\<close>

fun split_nl :: "string \<Rightarrow> string list" where
  "split_nl [] = [[]]"
| "split_nl (c # cs) =
     (if c = CHR 0x0A then [] # split_nl cs
      else case split_nl cs of piece # pieces \<Rightarrow> (c # piece) # pieces | [] \<Rightarrow> [[c]])"

text \<open>\<open>sep.join(xs)\<close>\<close>

fun str_join :: "string \<Rightarrow> string list \<Rightarrow> string" where
  "str_join sep [] = []"
| "str_join sep [x] = x"
| "str_join sep (x # y # ys) = x @ sep @ str_join sep (y # ys)"

text \<open>\<open>str(n)\<close> for an integer, in decimal.\<close>

fun str_of_nat :: "nat \<Rightarrow> string" where
  "str_of_nat n =
     (if n < 10 then [char_of (48 + n)]
      else str_of_nat (n div 10) @ [char_of (48 + n mod 10)])"

definition str_of_int :: "int \<Rightarrow> string" where
  "str_of_int i = (if i < 0 then CHR ''-'' # str_of_nat (nat (- i)) else str_of_nat (nat i))"

text \<open>The truth value of an optional string: \<open>None\<close> and the empty string are false.\<close>

definition truthy :: "string option \<Rightarrow> bool" where
  "truthy v = (case v of None \<Rightarrow> False | Some s \<Rightarrow> s \<noteq> [])"


section \<open>The email service (\<open>email_service.py\<close>)\<close>

text \<open>
  The fields of \<open>EmailService\<close>, read from the process environment by the constructor:
  \<open>os.getenv\<close> gives \<open>None\<close> for a variable that is not set.
\<close>

record email_service =
  sendgrid_api_key :: "string option"
  smtp_server :: string
  smtp_port :: int
  smtp_username :: "string option"
  smtp_password :: "string option"
  from_email :: string

text \<open>
  What the network does is outside the program. Every call that leaves the process is
  recorded in a trace, and its outcome is read from \<open>network\<close>: the SendGrid client
  either raises (with the text of the exception) or answers with a status code; an SMTP
  session either raises, rejects the login, or delivers.
\<close>

datatype transport_call =
    SendGrid_send string string string string
  | SMTP_session string int string string string bool

datatype smtp_outcome = Smtp_fault string | Smtp_auth_error string | Smtp_sent

record network =
  sendgrid_available :: bool
  sendgrid_response :: "string \<Rightarrow> string \<Rightarrow> string \<Rightarrow> string \<Rightarrow> string + int"
  smtp_response :: "string \<Rightarrow> int \<Rightarrow> string \<Rightarrow> string \<Rightarrow> smtp_outcome"

definition is_configured :: "network \<Rightarrow> email_service \<Rightarrow> bool" where
  "is_configured net svc =
     (if sendgrid_available net \<and> truthy (sendgrid_api_key svc) then True
      else if truthy (smtp_username svc) \<and> truthy (smtp_password svc) then True
      else False)"

definition send_with_sendgrid ::
  "network \<Rightarrow> email_service \<Rightarrow> transport_call list \<Rightarrow> string \<Rightarrow> string \<Rightarrow> string
     \<Rightarrow> (bool \<times> string) \<times> transport_call list" where
  "send_with_sendgrid net svc trace recipient subject body =
     (let trace' = trace @ [SendGrid_send (from_email svc) recipient subject body] in
      case sendgrid_response net (from_email svc) recipient subject body of
        Inl e \<Rightarrow> ((False, ''SendGrid error: '' @ e), trace')
      | Inr status_code \<Rightarrow>
          if status_code \<in> set [200, 201, 202]
          then ((True, ''Email sent successfully via SendGrid''), trace')
          else ((False, ''SendGrid error: '' @ str_of_int status_code), trace'))"

definition send_with_smtp ::
  "network \<Rightarrow> email_service \<Rightarrow> transport_call list \<Rightarrow> string \<Rightarrow> string \<Rightarrow> string
     \<Rightarrow> (bool \<times> string) \<times> transport_call list" where
  "send_with_smtp net svc trace recipient subject body =
     (let sender = (if from_email svc \<noteq> ''noreply@example.com'' then from_email svc
                    else the (smtp_username svc));
          html = (str_in ''<html>'' (str_lower body) \<or> str_in ''<p>'' (str_lower body));
          trace' = trace @ [SMTP_session (smtp_server svc) (smtp_port svc) sender recipient
                              subject html] in
      case smtp_response net (smtp_server svc) (smtp_port svc) sender recipient of
        Smtp_auth_error e \<Rightarrow>
          if str_in ''gmail'' (str_lower (smtp_server svc))
          then ((False, ''Gmail authentication failed. Make sure you're using an App Password, not your regular password. Enable 2FA and generate an App Password in your Google Account settings.''), trace')
          else ((False, ''Authentication failed for '' @ smtp_server svc @ '': '' @ e), trace')
      | Smtp_fault e \<Rightarrow>
          ((False, ''SMTP error: '' @ e @ ''. Check your email credentials and server settings.''), trace')
      | Smtp_sent \<Rightarrow> ((True, ''Email sent successfully via '' @ smtp_server svc), trace'))"

definition send_email ::
  "network \<Rightarrow> email_service \<Rightarrow> transport_call list \<Rightarrow> string \<Rightarrow> string \<Rightarrow> string
     \<Rightarrow> (bool \<times> string) \<times> transport_call list" where
  "send_email net svc trace recipient subject body =
     (if \<not> is_configured net svc
      then ((False, ''Email service not configured. Please set up SendGrid API key or SMTP credentials.''), trace)
      else if sendgrid_available net \<and> truthy (sendgrid_api_key svc)
      then send_with_sendgrid net svc trace recipient subject body
      else if truthy (smtp_username svc) \<and> truthy (smtp_password svc)
      then send_with_smtp net svc trace recipient subject body
      else ((False, ''No email service available''), trace))"

text \<open>A service built in a process environment that sets no credential at all.\<close>

definition unconfigured_service :: email_service where
  "unconfigured_service =
     \<lparr>sendgrid_api_key = None, smtp_server = ''smtp.gmail.com'', smtp_port = 587,
      smtp_username = None, smtp_password = None, from_email = ''noreply@example.com''\<rparr>"

definition silent_network :: network where
  "silent_network =
     \<lparr>sendgrid_available = True,
      sendgrid_response = (\<lambda>_ _ _ _. Inr 202),
      smtp_response = (\<lambda>_ _ _ _. Smtp_sent)\<rparr>"


section \<open>Regular expressions as the parser uses them\<close>

text \<open>
  The section patterns are alternations of literal words, \<open>(summary|profile|...)\<close>:
  \<open>re.search\<close> finds such a pattern in a string exactly when one of the words occurs
  in it.
\<close>

definition re_search_words :: "string list \<Rightarrow> string \<Rightarrow> bool" where
  "re_search_words pattern s = list_ex (\<lambda>word. str_in word s) pattern"

text \<open>
  The company pattern is a sequence of character classes, each taken once, or greedily
  zero or more times (\<open>*\<close>), or greedily one or more times (\<open>+\<close>). The matcher
  backtracks as Python's does: an item first takes as many characters as it can and
  gives them back one at a time, and the first way that lets the rest of the pattern
  match is the match. The result lists the text each item matched.
\<close>

datatype quantifier = Once | Star | Plus

type_synonym regex_item = "(char \<Rightarrow> bool) \<times> quantifier"

fun first_match :: "'a option list \<Rightarrow> 'a option" where
  "first_match [] = None"
| "first_match (Some x # _) = Some x"
| "first_match (None # xs) = first_match xs"

fun match_items :: "regex_item list \<Rightarrow> string \<Rightarrow> string list option" where
  "match_items [] s = Some []"
| "match_items ((cls, q) # items) s =
     (let longest = length (takeWhile cls s);
          least = (case q of Star \<Rightarrow> 0 | _ \<Rightarrow> 1);
          most = (case q of Once \<Rightarrow> min 1 longest | _ \<Rightarrow> longest)
      in first_match
           (map (\<lambda>n. map_option ((#) (take n s)) (match_items items (drop n s)))
                (rev [least..<Suc most])))"

text \<open>\<open>re.search\<close>: the match at the leftmost position that has one.\<close>

fun re_search :: "regex_item list \<Rightarrow> string \<Rightarrow> string list option" where
  "re_search items [] = match_items items []"
| "re_search items (c # cs) =
     (case match_items items (c # cs) of
        Some pieces \<Rightarrow> Some pieces
      | None \<Rightarrow> re_search items cs)"

text \<open>\<open>[A-Za-z0-9 &.,-]\<close>\<close>

definition company_char :: "char \<Rightarrow> bool" where
  "company_char c \<longleftrightarrow>
     c \<in> set ''ABCDEFGHIJKLMNOPQRSTUVWXYZabcdefghijklmnopqrstuvwxyz0123456789 &.,-''"

text \<open>\<open>\|\s*([A-Za-z0-9 &.,-]+)\s*\|\<close>; group 1 is the third item.\<close>

definition company_regex :: "regex_item list" where
  "company_regex =
     [((\<lambda>c. c = CHR ''|''), Once), (isspace, Star), (company_char, Plus), (isspace, Star),
      ((\<lambda>c. c = CHR ''|''), Once)]"


section \<open>The CV parser (\<open>cv_parser.py\<close>)\<close>

text \<open>
  The fields of \<open>CVParser\<close>. A dictionary is a list of keys with their values, in
  insertion order, which is the order Python iterates it in.
\<close>

record cv_parser =
  cv_content :: string
  cv_sections :: "(string \<times> string) list"
  cv_entities :: "(string \<times> string list) list"
  is_loaded :: bool

text \<open>The parser \<open>__init__\<close> builds.\<close>

definition new_parser :: cv_parser where
  "new_parser = \<lparr>cv_content = [], cv_sections = [], cv_entities = [], is_loaded = False\<rparr>"

text \<open>
  The faults a load can meet: \<open>ValueError\<close> for a suffix that is not supported, the
  exception of a format reader or of \<open>open\<close>, and an exception of the spaCy pipeline.
\<close>

datatype error = UnsupportedFormat string | ExtractionFailure string | InferenceFailure string

text \<open>
  What the parser calls and does not define: \<open>Path(p).suffix\<close>; the three readers
  (\<open>_extract_pdf_content\<close> and \<open>_extract_docx_content\<close>, which hand the file to
  pdfplumber, PyPDF2 and python-docx, and \<open>open(p).read()\<close>), each giving the text or
  the exception it raises; the spaCy pipeline (the entities of a text, each a label and
  its text, or the exception it raises); NLTK's \<open>word_tokenize\<close> and English stop
  words; and the order in which Python iterates \<open>set(xs)\<close>.
\<close>

record env =
  path_suffix :: "string \<Rightarrow> string"
  extract_pdf_content :: "string \<Rightarrow> error + string"
  extract_docx_content :: "string \<Rightarrow> error + string"
  read_text_file :: "string \<Rightarrow> error + string"
  nlp :: "string \<Rightarrow> error + (string \<times> string) list"
  word_tokenize :: "string \<Rightarrow> string list"
  stop_words :: "string set"
  set_order :: "string list \<Rightarrow> string list"

text \<open>\<open>d.get(k, dflt)\<close>\<close>

definition dict_get :: "('k \<times> 'v) list \<Rightarrow> 'k \<Rightarrow> 'v \<Rightarrow> 'v" where
  "dict_get d k dflt = (case map_of d k of None \<Rightarrow> dflt | Some v \<Rightarrow> v)"

text \<open>\<open>d[k].append(x)\<close>, for a key the dictionary has.\<close>

definition dict_append :: "'k \<Rightarrow> 'a \<Rightarrow> ('k \<times> 'a list) list \<Rightarrow> ('k \<times> 'a list) list" where
  "dict_append k x d = AList.map_entry k (\<lambda>v. v @ [x]) d"

subsection \<open>\<open>_parse_cv_sections\<close>\<close>

definition empty_sections :: "(string \<times> string list) list" where
  "empty_sections =
     [(''personal_info'', []), (''summary'', []), (''experience'', []), (''education'', []),
      (''skills'', []), (''clubs'', []), (''projects'', []), (''achievements'', []),
      (''other'', [])]"

definition section_patterns :: "(string \<times> string list) list" where
  "section_patterns =
     [(''personal_info'', [''personal'', ''contact'', ''details'']),
      (''summary'', [''summary'', ''profile'', ''objective'', ''about'']),
      (''experience'', [''experience'', ''employment'', ''work'', ''career'', ''professional'']),
      (''education'', [''education'', ''academic'', ''qualification'', ''degree'']),
      (''skills'', [''skills'', ''competencies'', ''technologies'', ''technical'']),
      (''clubs'', [''clubs'', ''unions'']),
      (''projects'', [''projects'', ''portfolio'']),
      (''achievements'', [''achievements'', ''awards'', ''honors'', ''accomplishments''])]"

text \<open>
  The inner \<open>for ... break ... else\<close>: \<open>Some section\<close> when the loop breaks at
  \<open>section\<close>, \<open>None\<close> when it runs to its \<open>else\<close>.
\<close>

fun find_header :: "(string \<times> string list) list \<Rightarrow> string \<Rightarrow> string \<Rightarrow> string option" where
  "find_header [] line line_lower = None"
| "find_header ((section, pattern) # patterns) line line_lower =
     (if re_search_words pattern line_lower \<and> length line < 50 then Some section
      else find_header patterns line line_lower)"

text \<open>One turn of the loop over the lines, on \<open>sections\<close> and \<open>current_section\<close>.\<close>

definition section_step ::
  "(string \<times> string list) list \<times> string \<Rightarrow> string \<Rightarrow> (string \<times> string list) list \<times> string" where
  "section_step st raw_line =
     (case st of (sections, current_section) \<Rightarrow>
        let line = str_strip raw_line in
        if line = [] then (sections, current_section)
        else case find_header section_patterns line (str_lower line) of
               Some section \<Rightarrow> (sections, section)
             | None \<Rightarrow> (dict_append current_section line sections, current_section))"

definition segment_lines :: "string \<Rightarrow> (string \<times> string list) list \<times> string" where
  "segment_lines content = foldl section_step (empty_sections, ''other'') (split_nl content)"

definition parse_cv_sections :: "cv_parser \<Rightarrow> cv_parser" where
  "parse_cv_sections self =
     (let sections = fst (segment_lines (cv_content self)) in
      self\<lparr>cv_sections :=
             map (\<lambda>(k, v). (k, str_join [CHR 0x0A] v)) (filter (\<lambda>(k, v). v \<noteq> []) sections)\<rparr>)"

text \<open>
  The categories whose pattern is found in a lower-cased line, in the order of
  \<open>section_patterns\<close>.
\<close>

definition matching_categories :: "string \<Rightarrow> string list" where
  "matching_categories line_lower =
     map fst (filter (\<lambda>(section, pattern). re_search_words pattern line_lower) section_patterns)"

text \<open>
  A line of the text is a header line when, stripped, it is not blank and the inner loop
  breaks on it.
\<close>

definition is_header :: "string \<Rightarrow> bool" where
  "is_header raw_line =
     (let line = str_strip raw_line in
      line \<noteq> [] \<and> find_header section_patterns line (str_lower line) \<noteq> None)"

text \<open>What the loop appends to a body: a line that is not blank, has no newline and is no header.\<close>

definition body_line :: "string \<Rightarrow> bool" where
  "body_line line \<longleftrightarrow> line \<noteq> [] \<and> CHR 0x0A \<notin> set line \<and> \<not> is_header line"

text \<open>The lines that the loop has appended to some body.\<close>

definition body_lines :: "(string \<times> string list) list \<Rightarrow> string set" where
  "body_lines sections = set (concat (map snd sections))"

text \<open>A line of the text that the loop appends: not blank when stripped, and no header.\<close>

definition kept_line :: "string \<Rightarrow> bool" where
  "kept_line raw_line \<longleftrightarrow> str_strip raw_line \<noteq> [] \<and> \<not> is_header raw_line"

text \<open>The nine buckets when only \<open>other\<close> has received lines.\<close>

definition other_bucket :: "string list \<Rightarrow> (string \<times> string list) list" where
  "other_bucket lines = butlast empty_sections @ [(''other'', lines)]"

subsection \<open>\<open>_extract_entities\<close>\<close>

definition empty_entities :: "(string \<times> string list) list" where
  "empty_entities =
     [(''persons'', []), (''organizations'', []), (''locations'', []), (''dates'', []),
      (''technologies'', [])]"

fun ner_step :: "(string \<times> string list) list \<Rightarrow> string \<times> string \<Rightarrow> (string \<times> string list) list" where
  "ner_step entities (label, text) =
     (if label = ''PERSON'' then dict_append ''persons'' text entities
      else if label \<in> set [''ORG'', ''COMPANY''] then dict_append ''organizations'' text entities
      else if label \<in> set [''GPE'', ''LOC''] then dict_append ''locations'' text entities
      else if label = ''DATE'' then dict_append ''dates'' text entities
      else entities)"

definition company_step :: "(string \<times> string list) list \<Rightarrow> string \<Rightarrow> (string \<times> string list) list" where
  "company_step entities line =
     (case re_search company_regex line of
        None \<Rightarrow> entities
      | Some pieces \<Rightarrow>
          let company = str_strip (pieces ! 2) in
          if company \<noteq> [] \<and> company \<notin> set (dict_get entities ''organizations'' [])
          then dict_append ''organizations'' company entities
          else entities)"

definition tech_keywords :: "string list" where
  "tech_keywords =
     [''python'', ''java'', ''javascript'', ''react'', ''node.js'', ''sql'', ''mongodb'',
      ''aws'', ''docker'', ''kubernetes'', ''git'', ''linux'', ''tensorflow'', ''pytorch'',
      ''html'', ''css'', ''angular'', ''vue'', ''django'', ''flask'', ''fastapi'']"

definition tech_step :: "string \<Rightarrow> (string \<times> string list) list \<Rightarrow> string \<Rightarrow> (string \<times> string list) list" where
  "tech_step content_lower entities tech =
     (if str_in tech content_lower then dict_append ''technologies'' tech entities else entities)"

definition extract_entities :: "env \<Rightarrow> cv_parser \<Rightarrow> error + cv_parser" where
  "extract_entities env self =
     (case nlp env (cv_content self) of
        Inl e \<Rightarrow> Inl e
      | Inr ents \<Rightarrow>
          let entities = foldl ner_step empty_entities ents;
              experience_section = dict_get (cv_sections self) ''experience'' [];
              entities = foldl company_step entities (split_nl experience_section);
              content_lower = str_lower (cv_content self);
              entities = foldl (tech_step content_lower) entities tech_keywords
          in Inr (self\<lparr>cv_entities := entities\<rparr>))"

subsection \<open>\<open>load_cv\<close>\<close>

text \<open>The dispatch on the suffix, up to the text that was read or the exception raised.\<close>

definition extract_content :: "env \<Rightarrow> string \<Rightarrow> error + string" where
  "extract_content env file_path =
     (let file_extension = str_lower (path_suffix env file_path) in
      if file_extension = ''.pdf'' then extract_pdf_content env file_path
      else if file_extension \<in> set [''.docx'', ''.doc''] then extract_docx_content env file_path
      else if file_extension = ''.txt'' then read_text_file env file_path
      else Inl (UnsupportedFormat (''Unsupported file format: '' @ file_extension)))"

text \<open>
  \<open>load_cv\<close> returns its result and the parser as the call leaves it. An exception
  is caught at the end of the method, so the parser keeps what was assigned before it
  was raised.
\<close>

definition load_cv :: "env \<Rightarrow> cv_parser \<Rightarrow> string \<Rightarrow> bool \<times> cv_parser" where
  "load_cv env self file_path =
     (case extract_content env file_path of
        Inl e \<Rightarrow> (False, self)
      | Inr content \<Rightarrow>
          if str_strip content \<noteq> [] then
            (let self1 = self\<lparr>cv_content := content\<rparr>;
                 self2 = parse_cv_sections self1 in
             case extract_entities env self2 of
               Inl e \<Rightarrow> (False, self2)
             | Inr self3 \<Rightarrow> (True, self3\<lparr>is_loaded := True\<rparr>))
          else (False, self))"


subsection \<open>\<open>answer_question\<close> and its responders\<close>

text \<open>
  An answer is the text, the confidence and the source sections. Confidences are
  Python floats written as short decimals, or the quotient of two word counts; they are
  modelled as the rationals they denote. Every method returns its result together with
  the parser as the method leaves it.
\<close>

type_synonym answer = "string \<times> rat \<times> string list"

text \<open>The confidence of an answer.\<close>

definition confidence :: "answer \<Rightarrow> rat" where
  "confidence a = fst (snd a)"

text \<open>\<open>any(word in s for word in words)\<close>\<close>

definition mentions :: "string list \<Rightarrow> string \<Rightarrow> bool" where
  "mentions words s = list_ex (\<lambda>word. str_in word s) words"

definition answer_role_question :: "cv_parser \<Rightarrow> string \<Rightarrow> answer \<times> cv_parser" where
  "answer_role_question self question =
     (let experience_section = dict_get (cv_sections self) ''experience'' [] in
      if experience_section = []
      then ((''No work experience information found in the CV.'', 0.3, []), self)
      else
        let lines = split_nl experience_section;
            roles = map str_strip
                      (filter (\<lambda>line. mentions [''engineer'', ''developer'', ''manager'', ''analyst'',
                                               ''director'', ''lead'', ''senior'', ''junior'']
                                              (str_lower line))
                              lines)
        in case roles of
             first_role # _ \<Rightarrow>
               if str_in ''last'' (str_lower question) \<or> str_in ''recent'' (str_lower question)
                    \<or> str_in ''current'' (str_lower question)
               then ((''Your most recent role appears to be: '' @ first_role, 0.8,
                      [''experience'']), self)
               else ((''Your roles include: '' @ str_join '', '' (take 3 roles), 0.8,
                      [''experience'']), self)
           | [] \<Rightarrow> ((''Could not identify specific roles in your CV.'', 0.4, [''experience'']),
                     self))"

definition answer_education_question :: "cv_parser \<Rightarrow> string \<Rightarrow> answer \<times> cv_parser" where
  "answer_education_question self question =
     (let education_section = dict_get (cv_sections self) ''education'' [] in
      if education_section = []
      then ((''No education information found in the CV.'', 0.3, []), self)
      else ((''Education details: '' @ education_section, 0.7, [''education'']), self))"

definition answer_skills_question :: "env \<Rightarrow> cv_parser \<Rightarrow> string \<Rightarrow> answer \<times> cv_parser" where
  "answer_skills_question env self question =
     (let skills_section = dict_get (cv_sections self) ''skills'' [];
          technologies = dict_get (cv_entities self) ''technologies'' [] in
      if technologies \<noteq> []
      then ((''Technologies and skills mentioned: '' @ str_join '', '' (set_order env technologies),
             0.8, [''skills'']), self)
      else if skills_section \<noteq> []
      then ((''Skills section: '' @ take 200 skills_section @ ''...'', 0.7, [''skills'']), self)
      else ((''No specific skills section found, but may be mentioned throughout the CV.'',
             0.4, [''skills'']), self))"

definition answer_experience_question :: "env \<Rightarrow> cv_parser \<Rightarrow> string \<Rightarrow> answer \<times> cv_parser" where
  "answer_experience_question env self question =
     (let experience_section = dict_get (cv_sections self) ''experience'' [];
          organizations = dict_get (cv_entities self) ''organizations'' [] in
      if organizations \<noteq> []
      then ((''Companies/organizations mentioned: '' @ str_join '', '' (set_order env organizations),
             0.8, [''experience'']), self)
      else if experience_section \<noteq> []
      then ((''Work experience: '' @ take 200 experience_section @ ''...'', 0.7,
             [''experience'']), self)
      else ((''No work experience section found.'', 0.3, [''experience'']), self))"

definition answer_projects_question :: "cv_parser \<Rightarrow> string \<Rightarrow> answer \<times> cv_parser" where
  "answer_projects_question self question =
     (let projects_section = dict_get (cv_sections self) ''projects'' [] in
      if projects_section \<noteq> []
      then ((''Projects: '' @ take 200 projects_section @ ''...'', 0.7, [''projects'']), self)
      else ((''No dedicated projects section found.'', 0.3, []), self))"

text \<open>
  \<open>[word.lower() for word in word_tokenize(text) if word.lower() not in self.stop_words]\<close>
\<close>

definition kept_words :: "env \<Rightarrow> string \<Rightarrow> string list" where
  "kept_words env text =
     filter (\<lambda>word. word \<notin> stop_words env) (map str_lower (word_tokenize env text))"

text \<open>The score of one section's text against the words of the question.\<close>

definition overlap_score :: "env \<Rightarrow> string list \<Rightarrow> string \<Rightarrow> rat" where
  "overlap_score env question_words content =
     (let content_words = kept_words env content;
          overlap = card (set question_words \<inter> set content_words)
      in of_nat overlap / of_nat (max (length question_words) 1))"

text \<open>
  One turn of the loop over the sections, on \<open>best_match\<close>, \<open>best_score\<close> and
  \<open>sources\<close>.
\<close>

definition search_step :: "env \<Rightarrow> string list \<Rightarrow> answer \<Rightarrow> string \<times> string \<Rightarrow> answer" where
  "search_step env question_words best entry =
     (case best of (best_match, best_score, sources) \<Rightarrow>
      case entry of (section_name, content) \<Rightarrow>
        if content = [] then best
        else
          let score = overlap_score env question_words content in
          if score > best_score then (take 300 content @ ''...'', score, [section_name])
          else best)"

definition general_search :: "env \<Rightarrow> cv_parser \<Rightarrow> string \<Rightarrow> answer \<times> cv_parser" where
  "general_search env self question =
     (let question_words = kept_words env question;
          best = foldl (search_step env question_words) ([], 0, []) (cv_sections self) in
      case best of (best_match, best_score, sources) \<Rightarrow>
        if best_score > 0.1 then ((best_match, best_score, sources), self)
        else ((''I couldn't find relevant information in the CV to answer that question.'',
               0.2, []), self))"

definition answer_question :: "env \<Rightarrow> cv_parser \<Rightarrow> string \<Rightarrow> answer \<times> cv_parser" where
  "answer_question env self question =
     (if \<not> is_loaded self then ((''No CV loaded'', 0, []), self)
      else
        let question_lower = str_lower question in
        if mentions [''role'', ''position'', ''job'', ''title''] question_lower
        then answer_role_question self question
        else if mentions [''education'', ''degree'', ''study'', ''university'', ''college'']
                  question_lower
        then answer_education_question self question
        else if mentions [''skill'', ''technology'', ''programming'', ''tech''] question_lower
        then answer_skills_question env self question
        else if mentions [''experience'', ''work'', ''company'', ''employer''] question_lower
        then answer_experience_question env self question
        else if mentions [''project'', ''built'', ''developed''] question_lower
        then answer_projects_question self question
        else general_search env self question)"


section \<open>A small environment to run the parser in\<close>

text \<open>
  A file system with the one text file \<open>cv.txt\<close>, a spaCy pipeline that finds no
  entity, a tokenizer that cuts at whitespace (as \<open>word_tokenize\<close> does on words
  without punctuation), and a few of NLTK's stop words.
\<close>

fun space_pieces :: "string \<Rightarrow> string list" where
  "space_pieces [] = [[]]"
| "space_pieces (c # cs) =
     (if isspace c then [] # space_pieces cs
      else case space_pieces cs of piece # pieces \<Rightarrow> (c # piece) # pieces | [] \<Rightarrow> [[c]])"

definition split_spaces :: "string \<Rightarrow> string list" where
  "split_spaces s = filter (\<lambda>w. w \<noteq> []) (space_pieces s)"

definition last_suffix :: "string \<Rightarrow> string" where
  "last_suffix p =
     (if CHR ''.'' \<in> set p then CHR ''.'' # rev (takeWhile (\<lambda>c. c \<noteq> CHR ''.'') (rev p))
      else [])"

definition example_env :: "string \<Rightarrow> env" where
  "example_env text =
     \<lparr>path_suffix = last_suffix,
      extract_pdf_content = (\<lambda>p. Inl (ExtractionFailure ''Failed to extract PDF content'')),
      extract_docx_content = (\<lambda>p. Inl (ExtractionFailure ''Failed to extract DOCX content'')),
      read_text_file = (\<lambda>p. if p = ''cv.txt'' then Inr text
                              else Inl (ExtractionFailure ''No such file or directory'')),
      nlp = (\<lambda>t. Inr []),
      word_tokenize = split_spaces,
      stop_words = set [''i'', ''me'', ''my'', ''you'', ''your'', ''what'', ''is'', ''the'', ''a'',
                        ''of'', ''and'', ''in'', ''to''],
      set_order = remdups\<rparr>"

text \<open>The CV of three lines: a header and two lines of experience.\<close>

definition acme_cv :: string where
  "acme_cv = ''Experience'' @ [CHR 0x0A] @ ''Engineer | Acme Corp | 2020-2022'' @ [CHR 0x0A]
               @ ''Senior Engineer''"


text \<open>The parser after it has loaded that CV from \<open>cv.txt\<close>.\<close>

definition acme_parser :: cv_parser where
  "acme_parser = snd (load_cv (example_env acme_cv) new_parser ''cv.txt'')"


text \<open>The same environment with a spaCy pipeline that raises on the text it is given.\<close>

definition raising_nlp_env :: "string \<Rightarrow> env" where
  "raising_nlp_env text =
     (example_env text)\<lparr>nlp := (\<lambda>t. Inl (InferenceFailure ''Text exceeds maximum length''))\<rparr>"


text \<open>The sections the loop of \<open>_general_search\<close> scores: those with a non-empty text.\<close>

definition searched_sections :: "cv_parser \<Rightarrow> (string \<times> string) list" where
  "searched_sections self = filter (\<lambda>(section_name, content). content \<noteq> []) (cv_sections self)"

text \<open>A question none of the five keyword tests of \<open>answer_question\<close> accepts.\<close>

definition general_question :: "string \<Rightarrow> bool" where
  "general_question question =
     (let question_lower = str_lower question in
      \<not> mentions [''role'', ''position'', ''job'', ''title''] question_lower \<and>
      \<not> mentions [''education'', ''degree'', ''study'', ''university'', ''college''] question_lower \<and>
      \<not> mentions [''skill'', ''technology'', ''programming'', ''tech''] question_lower \<and>
      \<not> mentions [''experience'', ''work'', ''company'', ''employer''] question_lower \<and>
      \<not> mentions [''project'', ''built'', ''developed''] question_lower)"

text \<open>
  The score in the words of the specification: the words of the question and of the
  section are two sets, and the number of shared words is divided by the number of
  question words, or by 1 if there is none.
\<close>

definition spec_overlap_score :: "env \<Rightarrow> string \<Rightarrow> string \<Rightarrow> rat" where
  "spec_overlap_score env question content =
     (let question_words = set (kept_words env question);
          section_words = set (kept_words env content)
      in of_nat (card (question_words \<inter> section_words)) / of_nat (max (card question_words) 1))"

text \<open>A CV with a skills section of one word, and the parser that has loaded it.\<close>

definition python_cv :: string where
  "python_cv = ''Skills'' @ [CHR 0x0A] @ ''python''"

definition python_parser :: cv_parser where
  "python_parser = snd (load_cv (example_env python_cv) new_parser ''cv.txt'')"


section \<open>Whitespace and lower case beyond ASCII\<close>

lemma latin1_lengths: "length upper_latin1 = length lower_latin1" "distinct upper_latin1"
  by code_simp+

lemma latin1_search_example:
  "overlap_score (example_env []) (kept_words (example_env []) (CHR 0xC9 # ''COLE''))
     (CHR 0xE9 # ''cole'') = 1"
  "cv_sections (parse_cv_sections (new_parser\<lparr>cv_content := ''Skills'' @ [CHR 0x0A, CHR 0xA0]\<rparr>)) = []"
  by code_simp+

lemma latin1_examples:
  "str_strip [CHR 0xA0] = []"
  "str_strip (CHR 0x85 # ''Skills'' @ [CHR 0xA0]) = ''Skills''"
  "str_lower (CHR 0xC9 # ''COLE'') = CHR 0xE9 # ''cole''"
  "str_lower [CHR 0xD7, CHR 0xDF, CHR 0xFF] = [CHR 0xD7, CHR 0xDF, CHR 0xFF]"
  by code_simp+


section \<open>Properties of the email service\<close>

lemma no_credentials_not_configured:
  "\<not> truthy (sendgrid_api_key svc) \<Longrightarrow>
   \<not> (truthy (smtp_username svc) \<and> truthy (smtp_password svc)) \<Longrightarrow>
   \<not> is_configured net svc"
  by (simp add: is_configured_def)

lemma send_email_not_configured:
  "\<not> is_configured net svc \<Longrightarrow>
   send_email net svc trace recipient subject body =
     ((False, ''Email service not configured. Please set up SendGrid API key or SMTP credentials.''), trace)"
  by (simp add: send_email_def)

text \<open>
  Claim C8. A service with no SendGrid API key and no SMTP username and password pair
  answers every \<open>send_email\<close> with \<open>False\<close> and the configuration message, and the
  trace of transport calls is the one it was given: neither SendGrid nor SMTP is called.
\<close>

theorem send_email_unconfigured:
  assumes "\<not> truthy (sendgrid_api_key svc)"
    and "\<not> (truthy (smtp_username svc) \<and> truthy (smtp_password svc))"
  shows "send_email net svc trace recipient subject body =
           ((False, ''Email service not configured. Please set up SendGrid API key or SMTP credentials.''), trace)"
  using assms by (simp add: send_email_not_configured no_credentials_not_configured)

theorem send_email_unconfigured_witness:
  "\<not> truthy (sendgrid_api_key unconfigured_service) \<and>
   \<not> (truthy (smtp_username unconfigured_service) \<and> truthy (smtp_password unconfigured_service)) \<and>
   send_email silent_network unconfigured_service [] ''a@b.org'' ''Hello'' ''Body'' =
     ((False, ''Email service not configured. Please set up SendGrid API key or SMTP credentials.''), [])"
proof -
  have k: "\<not> truthy (sendgrid_api_key unconfigured_service)"
    by (simp add: unconfigured_service_def truthy_def)
  have p: "\<not> (truthy (smtp_username unconfigured_service) \<and> truthy (smtp_password unconfigured_service))"
    by (simp add: unconfigured_service_def truthy_def)
  from k p send_email_unconfigured [OF k p, of silent_network "[]" "''a@b.org''" "''Hello''" "''Body''"]
  show ?thesis by simp
qed

section \<open>Answering questions: the unloaded parser, the frame, the confidence\<close>

text \<open>
  Claim C7. On a parser with no document loaded, \<open>answer_question\<close> returns the answer
  \<open>No CV loaded\<close> with confidence 0 and no sources, for every question; the method
  returns normally.
\<close>

theorem answer_question_not_loaded:
  "\<not> is_loaded self \<Longrightarrow> answer_question env self question = ((''No CV loaded'', 0, []), self)"
  by (simp add: answer_question_def)

theorem answer_question_not_loaded_witness:
  "\<not> is_loaded new_parser \<and>
   answer_question (example_env acme_cv) new_parser ''What is your most recent role?'' =
     ((''No CV loaded'', 0, []), new_parser)"
proof -
  have n: "\<not> is_loaded new_parser" by (simp add: new_parser_def)
  from n answer_question_not_loaded [OF n] show ?thesis by simp
qed

lemma responders_keep_parser:
  "snd (answer_role_question self q) = self"
  "snd (answer_education_question self q) = self"
  "snd (answer_skills_question env self q) = self"
  "snd (answer_experience_question env self q) = self"
  "snd (answer_projects_question self q) = self"
  "snd (general_search env self q) = self"
  by (simp_all add: answer_role_question_def answer_education_question_def
      answer_skills_question_def answer_experience_question_def answer_projects_question_def
      general_search_def Let_def split: list.splits prod.splits)

lemma answer_question_keeps_parser: "snd (answer_question env self question) = self"
  by (simp add: answer_question_def Let_def responders_keep_parser)

text \<open>
  Claim C10. \<open>answer_question\<close> leaves the parser as it found it, whichever responder
  answers: the text, the sections, the entities and the loaded flag are those before the
  call. So asking the same question again gives the same answer.
\<close>

theorem answer_question_read_only:
  "snd (answer_question env self question) = self \<and>
   answer_question env (snd (answer_question env self question)) question =
     answer_question env self question"
  by (simp add: answer_question_keeps_parser)

lemma overlap_score_range:
  "0 \<le> overlap_score env question_words content \<and> overlap_score env question_words content \<le> 1"
proof -
  let ?n = "card (set question_words \<inter> set (kept_words env content))"
  have "?n \<le> card (set question_words)"
    by (simp add: card_mono)
  also have "\<dots> \<le> length question_words"
    by (rule card_length)
  also have "\<dots> \<le> max (length question_words) 1"
    by simp
  finally have le: "?n \<le> max (length question_words) 1" .
  have pos: "(0::rat) < of_nat (max (length question_words) 1)"
    by simp
  have "(of_nat ?n :: rat) \<le> of_nat (max (length question_words) 1)"
    using le by (simp only: of_nat_le_iff)
  then have "(of_nat ?n :: rat) / of_nat (max (length question_words) 1) \<le> 1"
    using pos by (simp add: divide_le_eq_1)
  moreover have "(0::rat) \<le> of_nat ?n / of_nat (max (length question_words) 1)"
    by simp
  ultimately show ?thesis
    by (simp add: overlap_score_def Let_def)
qed

lemma search_step_range:
  "0 \<le> confidence best \<and> confidence best \<le> 1 \<Longrightarrow>
   0 \<le> confidence (search_step env question_words best entry) \<and>
   confidence (search_step env question_words best entry) \<le> 1"
  using overlap_score_range [of env question_words "snd entry"]
  by (cases best; cases entry) (simp add: search_step_def confidence_def Let_def)

lemma search_fold_range:
  "0 \<le> confidence best \<and> confidence best \<le> 1 \<Longrightarrow>
   0 \<le> confidence (foldl (search_step env question_words) best entries) \<and>
   confidence (foldl (search_step env question_words) best entries) \<le> 1"
proof (induction entries arbitrary: best)
  case Nil
  then show ?case by simp
next
  case (Cons entry entries)
  from Cons.prems have "0 \<le> confidence (search_step env question_words best entry) \<and>
      confidence (search_step env question_words best entry) \<le> 1"
    by (rule search_step_range)
  then show ?case
    using Cons.IH by simp
qed

lemma general_search_range:
  "0 \<le> confidence (fst (general_search env self question)) \<and>
   confidence (fst (general_search env self question)) \<le> 1"
proof -
  let ?best = "foldl (search_step env (kept_words env question)) ([], 0, []) (cv_sections self)"
  have "0 \<le> confidence ?best \<and> confidence ?best \<le> 1"
    by (rule search_fold_range) (simp add: confidence_def)
  then show ?thesis
    by (cases ?best) (simp add: general_search_def Let_def confidence_def)
qed

lemma responders_range:
  "0 \<le> confidence (fst (answer_role_question self q)) \<and> confidence (fst (answer_role_question self q)) \<le> 1"
  "0 \<le> confidence (fst (answer_education_question self q)) \<and> confidence (fst (answer_education_question self q)) \<le> 1"
  "0 \<le> confidence (fst (answer_skills_question env self q)) \<and> confidence (fst (answer_skills_question env self q)) \<le> 1"
  "0 \<le> confidence (fst (answer_experience_question env self q)) \<and> confidence (fst (answer_experience_question env self q)) \<le> 1"
  "0 \<le> confidence (fst (answer_projects_question self q)) \<and> confidence (fst (answer_projects_question self q)) \<le> 1"
  by (simp_all add: answer_role_question_def answer_education_question_def
      answer_skills_question_def answer_experience_question_def answer_projects_question_def
      confidence_def Let_def split: list.splits)

text \<open>
  Claim C9. The confidence \<open>answer_question\<close> returns lies between 0 and 1, for every
  parser and every question: the fixed confidences of the responders do, and the score
  of the general search is a count of shared words divided by a count of question words
  that is at least as large.
\<close>

theorem answer_question_confidence_range:
  "0 \<le> confidence (fst (answer_question env self question)) \<and>
   confidence (fst (answer_question env self question)) \<le> 1 \<and>
   0 \<le> overlap_score env (kept_words env question) content \<and>
   overlap_score env (kept_words env question) content \<le> 1"
proof (cases "is_loaded self")
  case False
  then show ?thesis
    by (simp add: answer_question_def confidence_def overlap_score_range)
next
  case True
  then show ?thesis
    by (simp add: answer_question_def Let_def responders_range general_search_range
        overlap_score_range)
qed

section \<open>Loading: what a failed load leaves behind\<close>

lemma acme_parser_eq:
  "acme_parser =
     \<lparr>cv_content = acme_cv,
      cv_sections = [(''experience'', ''Engineer | Acme Corp | 2020-2022'' @ [CHR 0x0A] @ ''Senior Engineer'')],
      cv_entities = [(''persons'', []), (''organizations'', [''Acme Corp'']), (''locations'', []),
                     (''dates'', []), (''technologies'', [])],
      is_loaded = True\<rparr>"
  by code_simp

lemma load_cv_extraction_fault:
  "extract_content env file_path = Inl e \<Longrightarrow> load_cv env self file_path = (False, self)"
  by (simp add: load_cv_def)

lemma load_cv_blank:
  "extract_content env file_path = Inr content \<Longrightarrow> str_strip content = [] \<Longrightarrow>
   load_cv env self file_path = (False, self)"
  by (simp add: load_cv_def)

lemma extract_content_unsupported:
  "str_lower (path_suffix env file_path) \<notin> set [''.pdf'', ''.docx'', ''.doc'', ''.txt''] \<Longrightarrow>
   extract_content env file_path =
     Inl (UnsupportedFormat (''Unsupported file format: '' @ str_lower (path_suffix env file_path)))"
  by (simp add: extract_content_def Let_def)

lemma load_cv_inference_fault:
  "extract_content env file_path = Inr content \<Longrightarrow> str_strip content \<noteq> [] \<Longrightarrow>
   nlp env content = Inl e \<Longrightarrow>
   load_cv env self file_path = (False, parse_cv_sections (self\<lparr>cv_content := content\<rparr>))"
  by (simp add: load_cv_def Let_def extract_entities_def parse_cv_sections_def)

text \<open>
  A load can also fail after the new text was stored: when the spaCy pipeline raises in
  \<open>_extract_entities\<close>, \<open>load_cv\<close> returns \<open>False\<close>, and the parser, which had
  loaded a CV before, now holds the text and the sections of the new file with the
  entities of the old one. So not every failed load leaves the parser as it was.
\<close>

theorem load_cv_inference_fault_counterexample:
  "is_loaded acme_parser \<and>
   cv_content acme_parser = acme_cv \<and>
   cv_sections acme_parser =
     [(''experience'', str_join [CHR 0x0A] [''Engineer | Acme Corp | 2020-2022'', ''Senior Engineer''])] \<and>
   extract_content (raising_nlp_env ''Jane Doe'') ''cv.txt'' = Inr ''Jane Doe'' \<and>
   nlp (raising_nlp_env ''Jane Doe'') ''Jane Doe'' =
     Inl (InferenceFailure ''Text exceeds maximum length'') \<and>
   \<not> fst (load_cv (raising_nlp_env ''Jane Doe'') acme_parser ''cv.txt'') \<and>
   cv_content (snd (load_cv (raising_nlp_env ''Jane Doe'') acme_parser ''cv.txt'')) = ''Jane Doe'' \<and>
   cv_sections (snd (load_cv (raising_nlp_env ''Jane Doe'') acme_parser ''cv.txt'')) =
     [(''other'', ''Jane Doe'')] \<and>
   cv_entities (snd (load_cv (raising_nlp_env ''Jane Doe'') acme_parser ''cv.txt'')) =
     cv_entities acme_parser \<and>
   is_loaded (snd (load_cv (raising_nlp_env ''Jane Doe'') acme_parser ''cv.txt''))"
  by code_simp

text \<open>
  Claim C1, as amended. A load that fails before the new text is stored, that is,
  because the suffix is not supported, because the reader of the file raises, or because
  the text read is empty or only whitespace, returns \<open>False\<close> and leaves the parser
  exactly as it was: text, sections, entities and loaded flag.
\<close>

theorem load_cv_failure_keeps_state:
  assumes "str_lower (path_suffix env file_path) \<notin> set [''.pdf'', ''.docx'', ''.doc'', ''.txt'']
           \<or> (\<exists>e. extract_content env file_path = Inl e)
           \<or> (\<exists>content. extract_content env file_path = Inr content \<and> str_strip content = [])"
  shows "load_cv env self file_path = (False, self)"
  using assms extract_content_unsupported [of env file_path]
  by (auto simp: load_cv_extraction_fault load_cv_blank simp del: set_simps)

lemma suffix_exe: "str_lower (last_suffix ''cv.exe'') = ''.exe''" by code_simp
lemma suffix_pdf: "str_lower (last_suffix ''cv.pdf'') = ''.pdf''" by code_simp
lemma suffix_txt: "str_lower (last_suffix ''cv.txt'') = ''.txt''" by code_simp
lemma strip_blank: "str_strip [CHR '' '', CHR 0xA0, CHR 0x09] = []" by code_simp

theorem load_cv_failure_keeps_state_witness:
  "is_loaded acme_parser \<and>
   str_lower (path_suffix (example_env acme_cv) ''cv.exe'') \<notin> set [''.pdf'', ''.docx'', ''.doc'', ''.txt''] \<and>
   load_cv (example_env acme_cv) acme_parser ''cv.exe'' = (False, acme_parser) \<and>
   extract_content (example_env acme_cv) ''cv.pdf'' = Inl (ExtractionFailure ''Failed to extract PDF content'') \<and>
   load_cv (example_env acme_cv) acme_parser ''cv.pdf'' = (False, acme_parser) \<and>
   extract_content (example_env [CHR '' '', CHR 0xA0, CHR 0x09]) ''cv.txt'' =
     Inr [CHR '' '', CHR 0xA0, CHR 0x09] \<and>
   str_strip [CHR '' '', CHR 0xA0, CHR 0x09] = [] \<and>
   load_cv (example_env [CHR '' '', CHR 0xA0, CHR 0x09]) acme_parser ''cv.txt'' = (False, acme_parser)"
proof -
  have l: "is_loaded acme_parser"
    by (simp add: acme_parser_eq)
  have a: "str_lower (path_suffix (example_env acme_cv) ''cv.exe'') \<notin> set [''.pdf'', ''.docx'', ''.doc'', ''.txt'']"
    by (simp add: example_env_def suffix_exe)
  have b: "extract_content (example_env acme_cv) ''cv.pdf'' = Inl (ExtractionFailure ''Failed to extract PDF content'')"
    by (simp add: extract_content_def example_env_def suffix_pdf)
  have c: "extract_content (example_env [CHR '' '', CHR 0xA0, CHR 0x09]) ''cv.txt'' =
      Inr [CHR '' '', CHR 0xA0, CHR 0x09]"
    by (simp add: extract_content_def example_env_def suffix_txt)
  have d: "str_strip [CHR '' '', CHR 0xA0, CHR 0x09] = []"
    by (rule strip_blank)
  have "load_cv (example_env acme_cv) acme_parser ''cv.exe'' = (False, acme_parser)"
    using a by (intro load_cv_failure_keeps_state) blast
  moreover have "load_cv (example_env acme_cv) acme_parser ''cv.pdf'' = (False, acme_parser)"
    using b by (intro load_cv_failure_keeps_state) blast
  moreover have "load_cv (example_env [CHR '' '', CHR 0xA0, CHR 0x09]) acme_parser ''cv.txt'' =
      (False, acme_parser)"
    using c d by (intro load_cv_failure_keeps_state) blast
  ultimately show ?thesis
    using l a b c d by blast
qed

section \<open>Section segmentation\<close>

lemma find_header_long: "\<not> length line < 50 \<Longrightarrow> find_header patterns line line_lower = None"
  by (induction patterns) auto

lemma find_header_first:
  "length line < 50 \<Longrightarrow>
   find_header patterns line line_lower =
     (case filter (\<lambda>(section, pattern). re_search_words pattern line_lower) patterns of
        [] \<Rightarrow> None
      | entry # _ \<Rightarrow> Some (fst entry))"
  by (induction patterns) auto

lemma find_header_matching:
  "length line < 50 \<Longrightarrow> matching_categories line_lower \<noteq> [] \<Longrightarrow>
   find_header section_patterns line line_lower = Some (hd (matching_categories line_lower))"
  by (simp add: find_header_first matching_categories_def split: list.splits)

lemma section_step_header:
  assumes "str_strip raw_line \<noteq> []"
    and "matching_categories (str_lower (str_strip raw_line)) \<noteq> []"
    and "length (str_strip raw_line) < 50"
  shows "section_step (sections, current_section) raw_line =
           (sections, hd (matching_categories (str_lower (str_strip raw_line))))"
  using assms by (simp add: section_step_def Let_def find_header_matching)

lemma strip_subset: "set (str_strip s) \<subseteq> set s"
proof -
  have "set (str_strip s) = set (dropWhile isspace (rev (dropWhile isspace s)))"
    by (simp add: str_strip_def)
  also have "\<dots> \<subseteq> set (rev (dropWhile isspace s))"
    by (meson set_dropWhileD subsetI)
  also have "\<dots> \<subseteq> set s"
    using set_dropWhileD by fastforce
  finally show ?thesis .
qed

lemma dropWhile_last_idem:
  "dropWhile P (rev (dropWhile P xs)) = ys \<Longrightarrow> dropWhile P (rev ys) = rev ys"
proof (cases "ys = []")
  case True
  then show ?thesis by simp
next
  case False
  assume eq: "dropWhile P (rev (dropWhile P xs)) = ys"
  obtain zs where z: "rev (dropWhile P xs) = zs @ ys"
    using eq by (metis takeWhile_dropWhile_id)
  then have "dropWhile P xs = rev ys @ rev zs"
    by (metis rev_append rev_rev_ident)
  moreover have "rev ys \<noteq> []" using False by simp
  ultimately have "hd (rev ys) = hd (dropWhile P xs)" and "dropWhile P xs \<noteq> []"
    by simp_all
  then have "\<not> P (hd (rev ys))"
    by (metis hd_dropWhile)
  with \<open>rev ys \<noteq> []\<close> show ?thesis
    by (cases "rev ys") simp_all
qed

lemma strip_idem: "str_strip (str_strip s) = str_strip s"
proof -
  define ys where "ys = dropWhile isspace (rev (dropWhile isspace s))"
  have a: "dropWhile isspace (rev ys) = rev ys"
    using dropWhile_last_idem [of isspace s ys] ys_def by simp
  have b: "dropWhile isspace ys = ys"
    unfolding ys_def by (simp add: dropWhile_idem)
  show ?thesis
    using a b by (simp add: str_strip_def ys_def [symmetric])
qed

lemma split_nl_nonempty: "split_nl s \<noteq> []"
  by (induction s) (auto split: list.splits)

lemma split_nl_no_newline: "line \<in> set (split_nl s) \<Longrightarrow> CHR 0x0A \<notin> set line"
  by (induction s arbitrary: line) (auto split: if_splits list.splits)

lemma split_nl_plain: "CHR 0x0A \<notin> set x \<Longrightarrow> split_nl x = [x]"
  by (induction x) auto

lemma split_nl_append:
  "CHR 0x0A \<notin> set x \<Longrightarrow> split_nl (x @ CHR 0x0A # rest) = x # split_nl rest"
  by (induction x) (auto split: list.splits)

lemma split_join:
  "lines \<noteq> [] \<Longrightarrow> \<forall>line\<in>set lines. CHR 0x0A \<notin> set line \<Longrightarrow>
   split_nl (str_join [CHR 0x0A] lines) = lines"
  by (induction "[CHR 0x0A]" lines rule: str_join.induct)
     (simp_all add: split_nl_plain split_nl_append)

lemma dict_append_entries:
  "(k, v) \<in> set (dict_append c x d) \<Longrightarrow>
   (k, v) \<in> set d \<or> (\<exists>v0. (k, v0) \<in> set d \<and> v = v0 @ [x])"
  unfolding dict_append_def
  by (induction d) (auto split: if_splits)

lemma section_step_body_lines:
  assumes inv: "\<forall>(k, v)\<in>set sections. \<forall>line\<in>set v. body_line line"
    and raw: "CHR 0x0A \<notin> set raw_line"
    and step: "section_step (sections, current_section) raw_line = (sections', current_section')"
  shows "\<forall>(k, v)\<in>set sections'. \<forall>line\<in>set v. body_line line"
proof (cases "str_strip raw_line \<noteq> [] \<and>
    find_header section_patterns (str_strip raw_line) (str_lower (str_strip raw_line)) = None")
  case False
  then have "sections' = sections"
    using step by (auto simp: section_step_def Let_def split: option.splits if_splits)
  with inv show ?thesis by simp
next
  case True
  then have s': "sections' = dict_append current_section (str_strip raw_line) sections"
    using step by (auto simp: section_step_def Let_def)
  have "CHR 0x0A \<notin> set (str_strip raw_line)"
    using raw strip_subset by blast
  with True have new: "body_line (str_strip raw_line)"
    by (simp add: body_line_def is_header_def Let_def strip_idem)
  show ?thesis
  proof (clarify)
    fix k v line
    assume kv: "(k, v) \<in> set sections'" and l: "line \<in> set v"
    from kv s' dict_append_entries [of k v current_section "str_strip raw_line" sections]
    consider "(k, v) \<in> set sections"
      | v0 where "(k, v0) \<in> set sections" "v = v0 @ [str_strip raw_line]"
      by blast
    then show "body_line line"
    proof cases
      case 1
      with inv l show ?thesis by blast
    next
      case 2
      with inv l new show ?thesis by auto
    qed
  qed
qed

lemma segment_fold_body_lines:
  "\<forall>(k, v)\<in>set (fst st). \<forall>line\<in>set v. body_line line \<Longrightarrow>
   \<forall>raw_line\<in>set raw_lines. CHR 0x0A \<notin> set raw_line \<Longrightarrow>
   \<forall>(k, v)\<in>set (fst (foldl section_step st raw_lines)). \<forall>line\<in>set v. body_line line"
proof (induction raw_lines arbitrary: st)
  case Nil
  then show ?case by simp
next
  case (Cons raw_line raw_lines)
  obtain sections current_section where st: "st = (sections, current_section)"
    by (cases st)
  obtain sections' current_section'
    where step: "section_step (sections, current_section) raw_line = (sections', current_section')"
    by (cases "section_step (sections, current_section) raw_line")
  have "\<forall>(k, v)\<in>set sections'. \<forall>line\<in>set v. body_line line"
    using Cons.prems st step section_step_body_lines [of sections raw_line current_section]
    by simp
  then show ?case
    using Cons.IH [of "(sections', current_section')"] Cons.prems(2) st step by simp
qed

lemma segment_lines_body_lines:
  "(k, v) \<in> set (fst (segment_lines content)) \<Longrightarrow> line \<in> set v \<Longrightarrow> body_line line"
proof -
  have "\<forall>(k, v)\<in>set (fst (foldl section_step (empty_sections, ''other'') (split_nl content))).
          \<forall>line\<in>set v. body_line line"
    by (rule segment_fold_body_lines) (auto simp: empty_sections_def split_nl_no_newline)
  then show "(k, v) \<in> set (fst (segment_lines content)) \<Longrightarrow> line \<in> set v \<Longrightarrow> body_line line"
    by (auto simp: segment_lines_def)
qed

lemma parse_cv_sections_bodies:
  assumes "(name, body) \<in> set (cv_sections (parse_cv_sections self))"
  shows "\<exists>v. (name, v) \<in> set (fst (segment_lines (cv_content self))) \<and> v \<noteq> [] \<and>
             body = str_join [CHR 0x0A] v"
  using assms by (auto simp: parse_cv_sections_def Let_def)

lemma parse_cv_sections_no_header:
  assumes "(name, body) \<in> set (cv_sections (parse_cv_sections self))"
    and "line \<in> set (split_nl body)"
  shows "\<not> is_header line"
proof -
  obtain v where v: "(name, v) \<in> set (fst (segment_lines (cv_content self)))" "v \<noteq> []"
      "body = str_join [CHR 0x0A] v"
    using parse_cv_sections_bodies [OF assms(1)] by blast
  have all: "\<forall>l\<in>set v. body_line l"
    using v(1) segment_lines_body_lines by blast
  then have "split_nl body = v"
    using v(2,3) by (simp add: split_join body_line_def)
  with assms(2) all show ?thesis
    by (simp add: body_line_def)
qed

text \<open>
  Claim C3. A line that, stripped, is not blank, is shorter than 50 characters and whose
  lower-cased text matches at least one header pattern is a header line: the loop sets
  \<open>current_section\<close> to the first matching category in the order of the patterns
  and appends the line to no body. And no line of any body of the parsed sections is a
  header line.
\<close>

theorem header_lines_switch_section:
  "(str_strip raw_line \<noteq> [] \<and> matching_categories (str_lower (str_strip raw_line)) \<noteq> []
      \<and> length (str_strip raw_line) < 50 \<longrightarrow>
    is_header raw_line \<and>
    section_step (sections, current_section) raw_line =
      (sections, hd (matching_categories (str_lower (str_strip raw_line))))) \<and>
   (\<forall>(name, body)\<in>set (cv_sections (parse_cv_sections self)).
      \<forall>line\<in>set (split_nl body). \<not> is_header line)"
proof (intro conjI impI)
  assume h: "str_strip raw_line \<noteq> [] \<and> matching_categories (str_lower (str_strip raw_line)) \<noteq> []
      \<and> length (str_strip raw_line) < 50"
  then show "is_header raw_line"
    by (simp add: is_header_def Let_def find_header_matching)
  from h show "section_step (sections, current_section) raw_line =
      (sections, hd (matching_categories (str_lower (str_strip raw_line))))"
    by (simp add: section_step_header)
next
  show "\<forall>(name, body)\<in>set (cv_sections (parse_cv_sections self)).
      \<forall>line\<in>set (split_nl body). \<not> is_header line"
    using parse_cv_sections_no_header by blast
qed

lemma technical_projects_line:
  "str_strip ''  Technical Projects '' = ''Technical Projects''"
  "matching_categories ''technical projects'' = [''skills'', ''projects'']"
  "str_lower ''Technical Projects'' = ''technical projects''"
  by code_simp+

lemma acme_experience_body:
  "split_nl (''Engineer | Acme Corp | 2020-2022'' @ [CHR 0x0A] @ ''Senior Engineer'') =
     [''Engineer | Acme Corp | 2020-2022'', ''Senior Engineer'']"
  by code_simp

theorem header_lines_switch_section_witness:
  "str_strip ''  Technical Projects '' \<noteq> [] \<and>
   matching_categories (str_lower (str_strip ''  Technical Projects '')) = [''skills'', ''projects''] \<and>
   length (str_strip ''  Technical Projects '') < 50 \<and>
   is_header ''  Technical Projects '' \<and>
   section_step (empty_sections, ''other'') ''  Technical Projects '' = (empty_sections, ''skills'') \<and>
   (''experience'', ''Engineer | Acme Corp | 2020-2022'' @ [CHR 0x0A] @ ''Senior Engineer'')
     \<in> set (cv_sections (parse_cv_sections acme_parser)) \<and>
   ''Senior Engineer''
     \<in> set (split_nl (''Engineer | Acme Corp | 2020-2022'' @ [CHR 0x0A] @ ''Senior Engineer'')) \<and>
   \<not> is_header ''Senior Engineer''"
proof -
  have h: "str_strip ''  Technical Projects '' \<noteq> [] \<and>
      matching_categories (str_lower (str_strip ''  Technical Projects '')) \<noteq> [] \<and>
      length (str_strip ''  Technical Projects '') < 50"
    by (simp add: technical_projects_line)
  have e: "(''experience'', ''Engineer | Acme Corp | 2020-2022'' @ [CHR 0x0A] @ ''Senior Engineer'')
      \<in> set (cv_sections (parse_cv_sections acme_parser))"
    by code_simp
  have l: "''Senior Engineer''
      \<in> set (split_nl (''Engineer | Acme Corp | 2020-2022'' @ [CHR 0x0A] @ ''Senior Engineer''))"
    by (simp add: acme_experience_body)
  from header_lines_switch_section [of "''  Technical Projects ''" empty_sections "''other''" acme_parser]
  have "is_header ''  Technical Projects '' \<and>
      section_step (empty_sections, ''other'') ''  Technical Projects '' =
        (empty_sections, hd (matching_categories (str_lower (str_strip ''  Technical Projects ''))))"
    and "\<forall>(name, body)\<in>set (cv_sections (parse_cv_sections acme_parser)).
      \<forall>line\<in>set (split_nl body). \<not> is_header line"
    using h by blast+
  with e l show ?thesis
    by (auto simp: technical_projects_line)
qed

section \<open>Loading: what a successful load produces\<close>

lemma strip_empty_iff: "str_strip s = [] \<longleftrightarrow> (\<forall>c\<in>set s. isspace c)"
proof -
  have "str_strip s = [] \<longleftrightarrow> (\<forall>c\<in>set (dropWhile isspace s). isspace c)"
    by (simp add: str_strip_def dropWhile_eq_Nil_conv)
  also have "\<dots> \<longleftrightarrow> dropWhile isspace s = []"
    by (metis dropWhile_eq_Nil_conv dropWhile_idem)
  also have "\<dots> \<longleftrightarrow> (\<forall>c\<in>set s. isspace c)"
    by (simp add: dropWhile_eq_Nil_conv)
  finally show ?thesis .
qed

lemma split_nl_covers:
  "c \<in> set s \<Longrightarrow> c = CHR 0x0A \<or> (\<exists>line\<in>set (split_nl s). c \<in> set line)"
  by (induction s) (auto split: list.splits)

lemma some_line_not_blank:
  assumes "str_strip content \<noteq> []"
  shows "\<exists>raw_line\<in>set (split_nl content). str_strip raw_line \<noteq> []"
proof (rule ccontr)
  assume "\<not> (\<exists>raw_line\<in>set (split_nl content). str_strip raw_line \<noteq> [])"
  then have blank: "\<forall>raw_line\<in>set (split_nl content). \<forall>c\<in>set raw_line. isspace c"
    by (simp add: strip_empty_iff)
  have "\<forall>c\<in>set content. isspace c"
  proof
    fix c assume "c \<in> set content"
    then consider "c = CHR 0x0A" | line where "line \<in> set (split_nl content)" "c \<in> set line"
      using split_nl_covers by blast
    then show "isspace c"
    proof cases
      case 1
      then show ?thesis by (simp add: isspace_def)
    next
      case 2
      with blank show ?thesis by blast
    qed
  qed
  with assms show False
    by (simp add: strip_empty_iff)
qed

lemma find_header_key:
  "find_header patterns line line_lower = Some section \<Longrightarrow> section \<in> fst ` set patterns"
  by (induction patterns) (auto split: if_splits)

lemma pattern_keys: "fst ` set section_patterns \<subseteq> fst ` set empty_sections"
  by (simp add: section_patterns_def empty_sections_def)

lemma dict_append_keys: "map fst (dict_append c x d) = map fst d"
  unfolding dict_append_def by (induction d) auto

lemma dict_append_lines:
  "c \<in> fst ` set d \<Longrightarrow> body_lines (dict_append c x d) = insert x (body_lines d)"
  unfolding dict_append_def body_lines_def by (induction d) auto

lemma section_step_lines:
  assumes "map fst sections = map fst empty_sections"
    and "current_section \<in> fst ` set empty_sections"
    and "section_step (sections, current_section) raw_line = (sections', current_section')"
  shows "map fst sections' = map fst empty_sections \<and>
         current_section' \<in> fst ` set empty_sections \<and>
         body_lines sections' =
           body_lines sections \<union> (if kept_line raw_line then {str_strip raw_line} else {})"
proof (cases "str_strip raw_line = []")
  case True
  with assms show ?thesis
    by (auto simp: section_step_def kept_line_def)
next
  case False
  show ?thesis
  proof (cases "find_header section_patterns (str_strip raw_line) (str_lower (str_strip raw_line))")
    case None
    have cur: "current_section \<in> fst ` set sections"
      using assms(1,2) by (metis list.set_map)
    from None False have k: "kept_line raw_line"
      by (simp add: kept_line_def is_header_def Let_def)
    from None False assms(3)
    have "sections' = dict_append current_section (str_strip raw_line) sections"
      and "current_section' = current_section"
      by (auto simp: section_step_def Let_def)
    then show ?thesis
      using assms(1,2) k cur by (simp add: dict_append_keys dict_append_lines)
  next
    case (Some found)
    then have "found \<in> fst ` set empty_sections"
      using find_header_key pattern_keys by blast
    moreover from Some False have "\<not> kept_line raw_line"
      by (simp add: kept_line_def is_header_def Let_def)
    moreover from Some False assms(3) have "sections' = sections" "current_section' = found"
      by (auto simp: section_step_def Let_def)
    ultimately show ?thesis
      using assms(1) by simp
  qed
qed

lemma segment_fold_lines:
  "map fst (fst st) = map fst empty_sections \<Longrightarrow> snd st \<in> fst ` set empty_sections \<Longrightarrow>
   body_lines (fst (foldl section_step st raw_lines)) =
     body_lines (fst st) \<union> str_strip ` {raw_line \<in> set raw_lines. kept_line raw_line}"
proof (induction raw_lines arbitrary: st)
  case Nil
  then show ?case by simp
next
  case (Cons raw_line raw_lines)
  obtain sections current_section where st: "st = (sections, current_section)"
    by (cases st)
  obtain sections' current_section'
    where step: "section_step (sections, current_section) raw_line = (sections', current_section')"
    by (cases "section_step (sections, current_section) raw_line")
  have s: "map fst sections' = map fst empty_sections \<and>
         current_section' \<in> fst ` set empty_sections \<and>
         body_lines sections' =
           body_lines sections \<union> (if kept_line raw_line then {str_strip raw_line} else {})"
  proof (rule section_step_lines)
    show "map fst sections = map fst empty_sections"
      using Cons.prems(1) st by simp
    show "current_section \<in> fst ` set empty_sections"
      using Cons.prems(2) st by simp
    show "section_step (sections, current_section) raw_line = (sections', current_section')"
      by (rule step)
  qed
  have "body_lines (fst (foldl section_step (sections', current_section') raw_lines)) =
      body_lines sections' \<union> str_strip ` {raw_line \<in> set raw_lines. kept_line raw_line}"
    using Cons.IH [of "(sections', current_section')"] s by (simp only: fst_conv snd_conv)
  also have "\<dots> = body_lines sections \<union>
      str_strip ` {r \<in> set (raw_line # raw_lines). kept_line r}"
    using s by auto
  finally show ?case
    using st step by simp
qed

lemma segment_lines_lines:
  "body_lines (fst (segment_lines content)) =
     str_strip ` {raw_line \<in> set (split_nl content). kept_line raw_line}"
proof -
  have "snd (empty_sections, ''other'') \<in> fst ` set empty_sections"
    by (simp add: empty_sections_def)
  moreover have "body_lines empty_sections = {}"
    by (simp add: empty_sections_def body_lines_def)
  ultimately show ?thesis
    using segment_fold_lines [of "(empty_sections, ''other'')" "split_nl content"]
    by (simp add: segment_lines_def)
qed

lemma parse_cv_sections_nonempty_iff:
  "cv_sections (parse_cv_sections self) \<noteq> [] \<longleftrightarrow>
     (\<exists>raw_line\<in>set (split_nl (cv_content self)). kept_line raw_line)"
proof -
  let ?sections = "fst (segment_lines (cv_content self))"
  have "cv_sections (parse_cv_sections self) \<noteq> [] \<longleftrightarrow> (\<exists>(k, v)\<in>set ?sections. v \<noteq> [])"
    by (force simp: parse_cv_sections_def Let_def filter_empty_conv)
  also have "\<dots> \<longleftrightarrow> body_lines ?sections \<noteq> {}"
    by (force simp: body_lines_def)
  also have "\<dots> \<longleftrightarrow> (\<exists>raw_line\<in>set (split_nl (cv_content self)). kept_line raw_line)"
    by (auto simp: segment_lines_lines)
  finally show ?thesis .
qed


lemma other_bucket_empty: "other_bucket [] = empty_sections"
  by (simp add: other_bucket_def empty_sections_def)

lemma dict_append_other:
  "dict_append ''other'' x (other_bucket lines) = other_bucket (lines @ [x])"
  by (simp add: other_bucket_def empty_sections_def dict_append_def)

lemma other_bucket_filter:
  "filter (\<lambda>(k, v). v \<noteq> []) (other_bucket lines) =
     (if lines = [] then [] else [(''other'', lines)])"
  by (simp add: other_bucket_def empty_sections_def)

lemma section_step_no_header:
  "\<not> is_header raw_line \<Longrightarrow>
   section_step (other_bucket lines, ''other'') raw_line =
     (other_bucket (lines @ filter (\<lambda>l. l \<noteq> []) [str_strip raw_line]), ''other'')"
  by (auto simp: section_step_def is_header_def Let_def dict_append_other)

lemma no_header_fold:
  "\<forall>raw_line\<in>set raw_lines. \<not> is_header raw_line \<Longrightarrow>
   foldl section_step (other_bucket lines, ''other'') raw_lines =
     (other_bucket (lines @ filter (\<lambda>l. l \<noteq> []) (map str_strip raw_lines)), ''other'')"
proof (induction raw_lines arbitrary: lines)
  case Nil
  then show ?case by simp
next
  case (Cons raw_line raw_lines)
  then show ?case
    by (simp add: section_step_no_header)
qed

lemma str_join_not_empty:
  "lines \<noteq> [] \<Longrightarrow> \<forall>line\<in>set lines. line \<noteq> [] \<Longrightarrow> str_join sep lines \<noteq> []"
  by (induction sep lines rule: str_join.induct) simp_all

lemma parse_cv_sections_no_headers:
  assumes "\<forall>raw_line\<in>set (split_nl (cv_content self)). \<not> is_header raw_line"
    and "str_strip (cv_content self) \<noteq> []"
  shows "\<exists>body. body \<noteq> [] \<and> cv_sections (parse_cv_sections self) = [(''other'', body)]"
proof -
  let ?lines = "filter (\<lambda>l. l \<noteq> []) (map str_strip (split_nl (cv_content self)))"
  have seg: "segment_lines (cv_content self) = (other_bucket ?lines, ''other'')"
    using no_header_fold [OF assms(1), of "[]"]
    by (simp add: segment_lines_def other_bucket_empty)
  have ne: "?lines \<noteq> []"
    using some_line_not_blank [OF assms(2)] by (auto simp: filter_empty_conv)
  have "cv_sections (parse_cv_sections self) = [(''other'', str_join [CHR 0x0A] ?lines)]"
    using ne by (simp add: parse_cv_sections_def seg other_bucket_filter)
  moreover have "str_join [CHR 0x0A] ?lines \<noteq> []"
    using ne by (intro str_join_not_empty) simp_all
  ultimately show ?thesis by blast
qed

lemma extract_entities_sections:
  "extract_entities env self = Inr self' \<Longrightarrow>
   cv_sections self' = cv_sections self \<and> cv_content self' = cv_content self \<and>
   is_loaded self' = is_loaded self"
  by (auto simp: extract_entities_def Let_def split: sum.splits)

lemma extract_entities_returns:
  "nlp env (cv_content self) = Inr ents \<Longrightarrow> \<exists>self'. extract_entities env self = Inr self'"
  by (simp add: extract_entities_def Let_def)

lemma parse_cv_sections_content: "cv_content (parse_cv_sections self) = cv_content self"
  by (simp add: parse_cv_sections_def Let_def)

lemma load_cv_loaded:
  assumes "extract_content env file_path = Inr content"
    and "str_strip content \<noteq> []"
    and "nlp env content = Inr ents"
  shows "\<exists>self'. load_cv env self file_path = (True, self') \<and> is_loaded self' \<and>
           cv_content self' = content \<and>
           cv_sections self' = cv_sections (parse_cv_sections (self\<lparr>cv_content := content\<rparr>))"
proof -
  let ?self2 = "parse_cv_sections (self\<lparr>cv_content := content\<rparr>)"
  have c: "cv_content ?self2 = content"
    by (simp add: parse_cv_sections_content)
  then obtain self3 where e: "extract_entities env ?self2 = Inr self3"
    using extract_entities_returns [of env ?self2 ents] assms(3) by auto
  then have "cv_sections self3 = cv_sections ?self2 \<and> cv_content self3 = content"
    using extract_entities_sections [OF e] c by simp
  then show ?thesis
    using assms(1,2) e by (simp add: load_cv_def Let_def)
qed

text \<open>
  Claim C2, as amended. When the suffix is supported and its reader returns a text that
  is not blank, and the spaCy pipeline returns, \<open>load_cv\<close> returns \<open>True\<close> and
  sets the loaded flag. The sections are non-empty exactly when some line of the text is
  kept, that is, is neither blank nor a header; and when no line is a header, the
  sections are the \<open>other\<close> bucket alone, with a non-empty body.
\<close>

theorem load_cv_success:
  assumes "extract_content env file_path = Inr content"
    and "str_strip content \<noteq> []"
    and "nlp env content = Inr ents"
  shows "\<exists>self'. load_cv env self file_path = (True, self') \<and> is_loaded self' \<and>
           (cv_sections self' \<noteq> [] \<longleftrightarrow> (\<exists>raw_line\<in>set (split_nl content). kept_line raw_line)) \<and>
           ((\<forall>raw_line\<in>set (split_nl content). \<not> is_header raw_line) \<longrightarrow>
              (\<exists>body. body \<noteq> [] \<and> cv_sections self' = [(''other'', body)]))"
proof -
  let ?self1 = "self\<lparr>cv_content := content\<rparr>"
  obtain self' where l: "load_cv env self file_path = (True, self')" "is_loaded self'"
      "cv_sections self' = cv_sections (parse_cv_sections ?self1)"
    using load_cv_loaded [OF assms] by blast
  have a: "cv_sections self' \<noteq> [] \<longleftrightarrow> (\<exists>raw_line\<in>set (split_nl content). kept_line raw_line)"
    using parse_cv_sections_nonempty_iff [of ?self1] l(3) by simp
  have b: "(\<forall>raw_line\<in>set (split_nl content). \<not> is_header raw_line) \<longrightarrow>
      (\<exists>body. body \<noteq> [] \<and> cv_sections self' = [(''other'', body)])"
    using parse_cv_sections_no_headers [of ?self1] assms(2) l(3) by simp
  from l(1,2) a b show ?thesis by blast
qed

text \<open>
  The claim as first stated fails: a text that is one header line loads with no section
  at all, and a load in which the spaCy pipeline raises returns \<open>False\<close>.
\<close>

theorem load_cv_header_only_counterexample:
  "extract_content (example_env ''Skills'') ''cv.txt'' = Inr ''Skills'' \<and>
   str_strip ''Skills'' \<noteq> [] \<and>
   fst (load_cv (example_env ''Skills'') new_parser ''cv.txt'') \<and>
   is_loaded (snd (load_cv (example_env ''Skills'') new_parser ''cv.txt'')) \<and>
   cv_sections (snd (load_cv (example_env ''Skills'') new_parser ''cv.txt'')) = [] \<and>
   extract_content (raising_nlp_env ''Jane Doe'') ''cv.txt'' = Inr ''Jane Doe'' \<and>
   str_strip ''Jane Doe'' \<noteq> [] \<and>
   \<not> fst (load_cv (raising_nlp_env ''Jane Doe'') new_parser ''cv.txt'')"
  by code_simp

lemma jane_doe_text:
  "extract_content (example_env ''Jane Doe'') ''cv.txt'' = Inr ''Jane Doe''"
  "str_strip ''Jane Doe'' \<noteq> []"
  "nlp (example_env ''Jane Doe'') ''Jane Doe'' = Inr []"
  "split_nl ''Jane Doe'' = [''Jane Doe'']"
  "\<not> is_header ''Jane Doe''"
  "kept_line ''Jane Doe''"
  by code_simp+

theorem load_cv_success_witness:
  "extract_content (example_env ''Jane Doe'') ''cv.txt'' = Inr ''Jane Doe'' \<and>
   str_strip ''Jane Doe'' \<noteq> [] \<and>
   nlp (example_env ''Jane Doe'') ''Jane Doe'' = Inr [] \<and>
   split_nl ''Jane Doe'' = [''Jane Doe''] \<and> \<not> is_header ''Jane Doe'' \<and> kept_line ''Jane Doe'' \<and>
   fst (load_cv (example_env ''Jane Doe'') new_parser ''cv.txt'') \<and>
   is_loaded (snd (load_cv (example_env ''Jane Doe'') new_parser ''cv.txt'')) \<and>
   cv_sections (snd (load_cv (example_env ''Jane Doe'') new_parser ''cv.txt'')) \<noteq> [] \<and>
   map fst (cv_sections (snd (load_cv (example_env ''Jane Doe'') new_parser ''cv.txt''))) = [''other'']"
proof -
  obtain self' where l: "load_cv (example_env ''Jane Doe'') new_parser ''cv.txt'' = (True, self')"
      "is_loaded self'"
      "cv_sections self' \<noteq> [] \<longleftrightarrow> (\<exists>raw_line\<in>set (split_nl ''Jane Doe''). kept_line raw_line)"
      "(\<forall>raw_line\<in>set (split_nl ''Jane Doe''). \<not> is_header raw_line) \<longrightarrow>
         (\<exists>body. body \<noteq> [] \<and> cv_sections self' = [(''other'', body)])"
    using load_cv_success [OF jane_doe_text(1,2,3), of new_parser] by blast
  have "cv_sections self' \<noteq> []"
    using l(3) by (simp add: jane_doe_text)
  moreover have "map fst (cv_sections self') = [''other'']"
    using l(4) by (auto simp: jane_doe_text)
  ultimately show ?thesis
    using l(1,2) by (simp add: jane_doe_text)
qed

section \<open>The CV of three lines: sections, organizations, most recent role\<close>

lemma dict_get_dict_append:
  "dict_get (dict_append k x d) k' dflt =
     (if k' = k then (case map_of d k of None \<Rightarrow> dflt | Some v \<Rightarrow> v @ [x]) else dict_get d k' dflt)"
  by (simp add: dict_get_def dict_append_def map_of_map_entry split: option.splits)

lemma entity_keys_organizations:
  "map fst d = map fst empty_entities \<Longrightarrow> map_of d ''organizations'' \<noteq> None"
proof -
  assume "map fst d = map fst empty_entities"
  then have "fst ` set d = set (map fst empty_entities)"
    by (metis list.set_map)
  then have "''organizations'' \<in> fst ` set d"
    by (simp add: empty_entities_def)
  then show ?thesis
    by (simp add: map_of_eq_None_iff)
qed

lemma append_organization:
  "map fst d = map fst empty_entities \<Longrightarrow>
   dict_get (dict_append ''organizations'' x d) ''organizations'' [] =
     dict_get d ''organizations'' [] @ [x]"
proof -
  assume "map fst d = map fst empty_entities"
  then obtain v where v: "map_of d ''organizations'' = Some v"
    using entity_keys_organizations by blast
  have "dict_get (dict_append ''organizations'' x d) ''organizations'' [] = v @ [x]"
    by (simp add: dict_get_dict_append v)
  moreover have "dict_get d ''organizations'' [] = v"
    by (simp only: dict_get_def v option.case)
  ultimately show ?thesis by simp
qed

lemma ner_step_keys: "map fst (ner_step d ent) = map fst d"
  by (cases ent) (simp add: dict_append_keys)

lemma ner_step_organizations:
  assumes "map fst d = map fst empty_entities"
  shows "dict_get (ner_step d ent) ''organizations'' [] =
     dict_get d ''organizations'' [] @
       map snd (filter (\<lambda>(label, text). label \<in> set [''ORG'', ''COMPANY'']) [ent])"
proof (cases ent)
  case (Pair lab span)
  show ?thesis
  proof (cases "lab \<in> set [''ORG'', ''COMPANY'']")
    case True
    then have "ner_step d ent = dict_append ''organizations'' span d"
      using Pair by auto
    then show ?thesis
      using True Pair append_organization [OF assms] by simp
  next
    case False
    then have "dict_get (ner_step d ent) ''organizations'' [] = dict_get d ''organizations'' []"
      using Pair by (simp add: dict_get_dict_append)
    then show ?thesis
      using False Pair by simp
  qed
qed

lemma ner_fold_organizations:
  "map fst d = map fst empty_entities \<Longrightarrow>
   map fst (foldl ner_step d ents) = map fst empty_entities \<and>
   dict_get (foldl ner_step d ents) ''organizations'' [] =
     dict_get d ''organizations'' [] @
       map snd (filter (\<lambda>(label, text). label \<in> set [''ORG'', ''COMPANY'']) ents)"
proof (induction ents arbitrary: d)
  case Nil
  then show ?case by simp
next
  case (Cons ent ents)
  have k: "map fst (ner_step d ent) = map fst empty_entities"
    using Cons.prems by (simp add: ner_step_keys)
  show ?case
    using Cons.IH [OF k] ner_step_organizations [OF Cons.prems, of ent] by simp
qed

lemma tech_fold_organizations:
  "dict_get (foldl (tech_step content_lower) d techs) ''organizations'' [] =
     dict_get d ''organizations'' []"
  by (induction techs arbitrary: d) (simp_all add: tech_step_def dict_get_dict_append)

lemma company_step_found:
  assumes "map fst d = map fst empty_entities"
    and "re_search company_regex line = Some pieces"
    and "str_strip (pieces ! 2) = company"
    and "company \<noteq> []"
  shows "dict_get (company_step d line) ''organizations'' [] =
     dict_get d ''organizations'' [] @
       (if company \<in> set (dict_get d ''organizations'' []) then [] else [company])"
  using assms by (simp add: company_step_def Let_def append_organization)

lemma company_step_none: "re_search company_regex line = None \<Longrightarrow> company_step d line = d"
  by (simp add: company_step_def)

lemma extract_entities_organizations:
  assumes "nlp env (cv_content self) = Inr ents"
    and "split_nl (dict_get (cv_sections self) ''experience'' []) = [line1, line2]"
    and "re_search company_regex line1 = Some pieces"
    and "str_strip (pieces ! 2) = company"
    and "company \<noteq> []"
    and "re_search company_regex line2 = None"
    and "extract_entities env self = Inr self'"
  shows "dict_get (cv_entities self') ''organizations'' [] =
           map snd (filter (\<lambda>(label, text). label \<in> set [''ORG'', ''COMPANY'']) ents) @
             (if company \<in> set (map snd (filter (\<lambda>(label, text). label \<in> set [''ORG'', ''COMPANY'']) ents))
              then [] else [company])"
proof -
  let ?ner = "foldl ner_step empty_entities ents"
  let ?orgs = "map snd (filter (\<lambda>(label, text). label \<in> set [''ORG'', ''COMPANY'']) ents)"
  have "dict_get empty_entities ''organizations'' [] = []"
    by (simp add: dict_get_def empty_entities_def)
  then have n: "map fst ?ner = map fst empty_entities" "dict_get ?ner ''organizations'' [] = ?orgs"
    using ner_fold_organizations [of empty_entities ents] by simp_all
  have "dict_get (company_step ?ner line1) ''organizations'' [] =
      ?orgs @ (if company \<in> set ?orgs then [] else [company])"
    using company_step_found [OF n(1) assms(3,4,5)] n(2) by simp
  then have c: "dict_get (foldl company_step ?ner [line1, line2]) ''organizations'' [] =
      ?orgs @ (if company \<in> set ?orgs then [] else [company])"
    by (simp add: company_step_none [OF assms(6)])
  have "cv_entities self' =
      foldl (tech_step (str_lower (cv_content self))) (foldl company_step ?ner [line1, line2])
        tech_keywords"
    using assms(1,2,7) by (auto simp: extract_entities_def Let_def)
  then show ?thesis
    using c by (simp only: tech_fold_organizations)
qed


lemma acme_company_lines:
  "map_option (\<lambda>pieces. str_strip (pieces ! 2))
     (re_search company_regex ''Engineer | Acme Corp | 2020-2022'') = Some ''Acme Corp''"
  "re_search company_regex ''Senior Engineer'' = None"
  by code_simp+

lemma acme_sections_new:
  "cv_sections (parse_cv_sections \<lparr>cv_content = acme_cv, cv_sections = [], cv_entities = [], is_loaded = False\<rparr>) =
     [(''experience'', str_join [CHR 0x0A] [''Engineer | Acme Corp | 2020-2022'', ''Senior Engineer''])]"
  by code_simp

lemma parse_cv_sections_depends:
  "cv_content self = cv_content other \<Longrightarrow>
   cv_sections (parse_cv_sections self) = cv_sections (parse_cv_sections other)"
  by (simp add: parse_cv_sections_def)

lemma acme_sections:
  "cv_sections (parse_cv_sections (self\<lparr>cv_content := acme_cv\<rparr>)) =
     [(''experience'', str_join [CHR 0x0A] [''Engineer | Acme Corp | 2020-2022'', ''Senior Engineer''])]"
proof -
  have "cv_sections (parse_cv_sections (self\<lparr>cv_content := acme_cv\<rparr>)) =
      cv_sections (parse_cv_sections \<lparr>cv_content = acme_cv, cv_sections = [], cv_entities = [], is_loaded = False\<rparr>)"
    by (rule parse_cv_sections_depends) simp
  then show ?thesis
    by (simp only: acme_sections_new)
qed

lemma acme_body_lines:
  "split_nl (str_join [CHR 0x0A] [''Engineer | Acme Corp | 2020-2022'', ''Senior Engineer'']) =
     [''Engineer | Acme Corp | 2020-2022'', ''Senior Engineer'']"
  by code_simp

lemma acme_not_blank: "str_strip acme_cv \<noteq> []"
  by code_simp

lemma load_cv_steps:
  assumes "extract_content env file_path = Inr content"
    and "str_strip content \<noteq> []"
    and "extract_entities env (parse_cv_sections (self\<lparr>cv_content := content\<rparr>)) = Inr self3"
  shows "load_cv env self file_path = (True, self3\<lparr>is_loaded := True\<rparr>)"
  using assms by (simp add: load_cv_def Let_def)

lemma acme_load:
  assumes e: "extract_content env file_path = Inr acme_cv"
    and n: "nlp env acme_cv = Inr ents"
    and b: "body = str_join [CHR 0x0A] [''Engineer | Acme Corp | 2020-2022'', ''Senior Engineer'']"
    and c: "company = ''Acme Corp''"
    and o: "orgs = map snd (filter (\<lambda>(label, text). label \<in> set [''ORG'', ''COMPANY'']) ents)"
  shows "\<exists>self'. load_cv env self file_path = (True, self') \<and> is_loaded self' \<and>
           cv_sections self' = [(''experience'', body)] \<and>
           dict_get (cv_entities self') ''organizations'' [] =
             orgs @ (if company \<in> set orgs then [] else [company])"
proof -
  define line1 where "line1 = ''Engineer | Acme Corp | 2020-2022''"
  define line2 where "line2 = ''Senior Engineer''"
  define self2 where "self2 = parse_cv_sections (self\<lparr>cv_content := acme_cv\<rparr>)"
  have s2: "cv_sections self2 = [(''experience'', body)]"
    unfolding self2_def b by (rule acme_sections)
  have c2: "cv_content self2 = acme_cv"
    unfolding self2_def by (simp add: parse_cv_sections_content)
  obtain self3 where e3: "extract_entities env self2 = Inr self3"
    using extract_entities_returns [of env self2 ents] n c2 by auto
  have g: "dict_get (cv_sections self2) ''experience'' [] = body"
    by (simp add: s2 dict_get_def)
  have sp: "split_nl (dict_get (cv_sections self2) ''experience'' []) = [line1, line2]"
    unfolding g b line1_def line2_def by (rule acme_body_lines)
  have "\<exists>pieces. re_search company_regex line1 = Some pieces \<and> str_strip (pieces ! 2) = company"
    using acme_company_lines(1) unfolding line1_def c by (simp only: map_option_eq_Some)
  then obtain pieces where p: "re_search company_regex line1 = Some pieces"
      "str_strip (pieces ! 2) = company"
    by blast
  have ne: "company \<noteq> []"
    by (simp add: c)
  have none: "re_search company_regex line2 = None"
    unfolding line2_def by (rule acme_company_lines(2))
  have n2: "nlp env (cv_content self2) = Inr ents"
    using n c2 by simp
  have orgs: "dict_get (cv_entities self3) ''organizations'' [] =
      orgs @ (if company \<in> set orgs then [] else [company])"
    unfolding o by (rule extract_entities_organizations [OF n2 sp p ne none e3])
  have s3: "cv_sections self3 = [(''experience'', body)]"
    using extract_entities_sections [OF e3] s2 by simp
  have l: "load_cv env self file_path = (True, self3\<lparr>is_loaded := True\<rparr>)"
    using e acme_not_blank e3 unfolding self2_def by (rule load_cv_steps)
  show ?thesis
    using l orgs s3 by simp
qed




lemma answer_role_recent:
  assumes "dict_get (cv_sections self) ''experience'' [] = body"
    and "body \<noteq> []"
    and "map str_strip
           (filter (\<lambda>line. mentions [''engineer'', ''developer'', ''manager'', ''analyst'',
                                     ''director'', ''lead'', ''senior'', ''junior'']
                                    (str_lower line))
                   (split_nl body)) = first_role # more_roles"
    and "str_in ''recent'' (str_lower question)"
  shows "answer_role_question self question =
           ((''Your most recent role appears to be: '' @ first_role, 0.8, [''experience'']), self)"
  using assms by (simp add: answer_role_question_def Let_def)

lemma acme_roles:
  "map str_strip
     (filter (\<lambda>line. mentions [''engineer'', ''developer'', ''manager'', ''analyst'',
                               ''director'', ''lead'', ''senior'', ''junior'']
                              (str_lower line))
             (split_nl (str_join [CHR 0x0A] [''Engineer | Acme Corp | 2020-2022'', ''Senior Engineer'']))) =
   [''Engineer | Acme Corp | 2020-2022'', ''Senior Engineer'']"
  "str_join [CHR 0x0A] [''Engineer | Acme Corp | 2020-2022'', ''Senior Engineer''] \<noteq> []"
  by code_simp+

lemma recent_role_question:
  "mentions [''role'', ''position'', ''job'', ''title''] (str_lower ''What is your most recent role?'')"
  "str_in ''recent'' (str_lower ''What is your most recent role?'')"
  "str_in ''Engineer | Acme Corp | 2020-2022''
     (''Your most recent role appears to be: '' @ ''Engineer | Acme Corp | 2020-2022'')"
  by code_simp+

text \<open>
  Claim C6. After that load, the question \<open>What is your most recent role?\<close> goes to
  the role responder, and the answer is the first line of the experience section that
  has a job-title word, \<open>Engineer | Acme Corp | 2020-2022\<close>, after a fixed
  introduction, with confidence 0.8 and the single source \<open>experience\<close>.
\<close>

theorem acme_most_recent_role:
  assumes "extract_content env file_path = Inr acme_cv"
    and "nlp env acme_cv = Inr ents"
  shows "\<exists>self'. load_cv env self file_path = (True, self') \<and>
           answer_question env self' ''What is your most recent role?'' =
             answer_role_question self' ''What is your most recent role?'' \<and>
           answer_question env self' ''What is your most recent role?'' =
             ((''Your most recent role appears to be: '' @ ''Engineer | Acme Corp | 2020-2022'', 0.8,
               [''experience'']), self') \<and>
           str_in ''Engineer | Acme Corp | 2020-2022''
             (''Your most recent role appears to be: '' @ ''Engineer | Acme Corp | 2020-2022'')"
proof -
  define body where "body = str_join [CHR 0x0A] [''Engineer | Acme Corp | 2020-2022'', ''Senior Engineer'']"
  define line1 where "line1 = ''Engineer | Acme Corp | 2020-2022''"
  define line2 where "line2 = ''Senior Engineer''"
  define q where "q = ''What is your most recent role?''"
  obtain self' where l: "load_cv env self file_path = (True, self')" "is_loaded self'"
      "cv_sections self' = [(''experience'', body)]"
    using acme_load [OF assms body_def refl refl, of self] by blast
  have mq: "mentions [''role'', ''position'', ''job'', ''title''] (str_lower q)"
    unfolding q_def by (rule recent_role_question(1))
  have rq: "str_in ''recent'' (str_lower q)"
    unfolding q_def by (rule recent_role_question(2))
  have route: "answer_question env self' q = answer_role_question self' q"
    using l(2) mq by (simp add: answer_question_def Let_def)
  have g: "dict_get (cv_sections self') ''experience'' [] = body"
    by (simp add: l(3) dict_get_def)
  have ne: "body \<noteq> []"
    unfolding body_def by (rule acme_roles(2))
  have roles: "map str_strip
           (filter (\<lambda>line. mentions [''engineer'', ''developer'', ''manager'', ''analyst'',
                                     ''director'', ''lead'', ''senior'', ''junior'']
                                    (str_lower line))
                   (split_nl body)) = line1 # [line2]"
    unfolding body_def line1_def line2_def by (rule acme_roles(1))
  have role: "answer_role_question self' q =
      ((''Your most recent role appears to be: '' @ line1, 0.8, [''experience'']), self')"
    using g ne roles rq by (rule answer_role_recent)
  show ?thesis
  proof (intro exI conjI)
    show "load_cv env self file_path = (True, self')"
      by (rule l(1))
    show "answer_question env self' ''What is your most recent role?'' =
        answer_role_question self' ''What is your most recent role?''"
      using route unfolding q_def .
    show "answer_question env self' ''What is your most recent role?'' =
        ((''Your most recent role appears to be: '' @ ''Engineer | Acme Corp | 2020-2022'', 0.8,
          [''experience'']), self')"
      using route role unfolding q_def line1_def by (rule trans)
    show "str_in ''Engineer | Acme Corp | 2020-2022''
        (''Your most recent role appears to be: '' @ ''Engineer | Acme Corp | 2020-2022'')"
      by (rule recent_role_question(3))
  qed
qed

theorem acme_most_recent_role_witness:
  "extract_content (example_env acme_cv) ''cv.txt'' = Inr acme_cv \<and>
   nlp (example_env acme_cv) acme_cv = Inr [] \<and>
   fst (load_cv (example_env acme_cv) new_parser ''cv.txt'') \<and>
   answer_question (example_env acme_cv) acme_parser ''What is your most recent role?'' =
     ((''Your most recent role appears to be: '' @ ''Engineer | Acme Corp | 2020-2022'', 0.8,
       [''experience'']), acme_parser)"
proof -
  have e: "extract_content (example_env acme_cv) ''cv.txt'' = Inr acme_cv"
    by (simp add: extract_content_def example_env_def suffix_txt)
  have n: "nlp (example_env acme_cv) acme_cv = Inr []"
    by (simp add: example_env_def)
  obtain self' where l: "load_cv (example_env acme_cv) new_parser ''cv.txt'' = (True, self')"
      "answer_question (example_env acme_cv) self' ''What is your most recent role?'' =
         ((''Your most recent role appears to be: '' @ ''Engineer | Acme Corp | 2020-2022'', 0.8,
           [''experience'']), self')"
    using acme_most_recent_role [OF e n, of new_parser] by blast
  have a: "acme_parser = self'"
    by (simp add: acme_parser_def l(1))
  have "fst (load_cv (example_env acme_cv) new_parser ''cv.txt'')"
    by (simp add: l(1))
  then show ?thesis
    using e n l(2) unfolding a by blast
qed

section \<open>The general search\<close>

text \<open>
  The claim as first stated divides by the number of distinct question words. The code
  divides by the length of the list of question words, so a question that repeats a word
  gets a lower score: \<open>python python\<close> scores 1/2 against a section that holds
  \<open>python\<close>, not 1, and ten times \<open>python\<close> scores 1/10, which is not above the
  threshold, so the section is not returned.
\<close>

theorem general_search_repeated_word_counterexample:
  "is_loaded python_parser \<and>
   cv_sections python_parser = [(''skills'', ''python'')] \<and>
   general_question ''python python'' \<and>
   fst (answer_question (example_env python_cv) python_parser ''python python'') =
     (''python...'', 1 / 2, [''skills'']) \<and>
   spec_overlap_score (example_env python_cv) ''python python'' ''python'' = 1 \<and>
   general_question ''python python python python python python python python python python'' \<and>
   fst (answer_question (example_env python_cv) python_parser
          ''python python python python python python python python python python'') =
     (''I couldn't find relevant information in the CV to answer that question.'', 0.2, []) \<and>
   spec_overlap_score (example_env python_cv)
     ''python python python python python python python python python python'' ''python'' = 1"
  by code_simp

lemma search_step_empty: "search_step env question_words best (section_name, []) = best"
  by (cases best) (simp add: search_step_def)

lemma search_fold_skips_empty:
  "foldl (search_step env question_words) best entries =
   foldl (search_step env question_words) best
     (filter (\<lambda>(section_name, content). content \<noteq> []) entries)"
  by (induction entries arbitrary: best) (auto simp: search_step_empty)

lemma search_step_better:
  "content \<noteq> [] \<Longrightarrow> confidence best < overlap_score env question_words content \<Longrightarrow>
   search_step env question_words best (section_name, content) =
     (take 300 content @ ''...'', overlap_score env question_words content, [section_name])"
  by (cases best) (simp add: search_step_def confidence_def Let_def)

lemma search_step_not_better:
  "\<not> confidence best < overlap_score env question_words content \<Longrightarrow>
   search_step env question_words best (section_name, content) = best"
  by (cases best) (simp add: search_step_def confidence_def Let_def)

lemma search_fold_best:
  assumes "\<forall>entry\<in>set entries. snd entry \<noteq> []"
  shows "(foldl (search_step env question_words) best entries = best \<and>
          (\<forall>entry\<in>set entries. overlap_score env question_words (snd entry) \<le> confidence best)) \<or>
         (\<exists>before section_name content after.
            entries = before @ (section_name, content) # after \<and>
            (\<forall>entry\<in>set before.
               overlap_score env question_words (snd entry) < overlap_score env question_words content) \<and>
            (\<forall>entry\<in>set after.
               overlap_score env question_words (snd entry) \<le> overlap_score env question_words content) \<and>
            confidence best < overlap_score env question_words content \<and>
            foldl (search_step env question_words) best entries =
              (take 300 content @ ''...'', overlap_score env question_words content, [section_name]))"
  using assms
proof (induction entries rule: rev_induct)
  case Nil
  then show ?case by simp
next
  case (snoc last_entry entries)
  obtain name' content' where le: "last_entry = (name', content')"
    by (cases last_entry)
  have ne: "content' \<noteq> []"
    using snoc.prems le by simp
  let ?score = "\<lambda>content. overlap_score env question_words content"
  let ?fold = "foldl (search_step env question_words) best entries"
  have step: "foldl (search_step env question_words) best (entries @ [last_entry]) =
      search_step env question_words ?fold (name', content')"
    by (simp add: le)
  from snoc.IH snoc.prems
  consider (none) "?fold = best" "\<forall>entry\<in>set entries. ?score (snd entry) \<le> confidence best"
    | (some) before section_name content after
      where "entries = before @ (section_name, content) # after"
        "\<forall>entry\<in>set before. ?score (snd entry) < ?score content"
        "\<forall>entry\<in>set after. ?score (snd entry) \<le> ?score content"
        "confidence best < ?score content"
        "?fold = (take 300 content @ ''...'', ?score content, [section_name])"
    by auto
  then show ?case
  proof cases
    case none
    show ?thesis
    proof (cases "confidence best < ?score content'")
      case True
      then have "foldl (search_step env question_words) best (entries @ [last_entry]) =
          (take 300 content' @ ''...'', ?score content', [name'])"
        using step none(1) ne by (simp add: search_step_better)
      moreover have "\<forall>entry\<in>set entries. ?score (snd entry) < ?score content'"
        using none(2) True by fastforce
      ultimately show ?thesis
        using True le by (intro disjI2 exI [of _ entries] exI [of _ name'] exI [of _ content']
            exI [of _ "[]"]) simp
    next
      case False
      then have "foldl (search_step env question_words) best (entries @ [last_entry]) = best"
        using step none(1) by (simp add: search_step_not_better)
      moreover have "\<forall>entry\<in>set (entries @ [last_entry]). ?score (snd entry) \<le> confidence best"
        using none(2) False le by auto
      ultimately show ?thesis by blast
    qed
  next
    case some
    have conf: "confidence ?fold = ?score content"
      by (simp add: some(5) confidence_def)
    show ?thesis
    proof (cases "?score content < ?score content'")
      case True
      then have "foldl (search_step env question_words) best (entries @ [last_entry]) =
          (take 300 content' @ ''...'', ?score content', [name'])"
        using step conf ne by (simp add: search_step_better)
      moreover have "\<forall>entry\<in>set entries. ?score (snd entry) < ?score content'"
        using some(1,2,3) True by fastforce
      moreover have "confidence best < ?score content'"
        using some(4) True by simp
      ultimately show ?thesis
        using le by (intro disjI2 exI [of _ entries] exI [of _ name'] exI [of _ content']
            exI [of _ "[]"]) simp
    next
      case False
      then have "foldl (search_step env question_words) best (entries @ [last_entry]) =
          (take 300 content @ ''...'', ?score content, [section_name])"
        using step conf some(5) by (simp add: search_step_not_better)
      moreover have "\<forall>entry\<in>set (after @ [last_entry]). ?score (snd entry) \<le> ?score content"
        using some(3) False le by auto
      ultimately show ?thesis
        using some(1,2,4)
        by (intro disjI2 exI [of _ before] exI [of _ section_name] exI [of _ content]
            exI [of _ "after @ [last_entry]"]) simp
    qed
  qed
qed


lemma general_question_routes:
  "is_loaded self \<Longrightarrow> general_question question \<Longrightarrow>
   answer_question env self question = general_search env self question"
  by (simp add: answer_question_def general_question_def Let_def)

lemma searched_sections_not_empty: "\<forall>entry\<in>set (searched_sections self). snd entry \<noteq> []"
  by (auto simp: searched_sections_def)

lemma general_search_fold:
  "general_search env self question =
     (case foldl (search_step env (kept_words env question)) ([], 0, []) (searched_sections self) of
        (best_match, best_score, sources) \<Rightarrow>
          if best_score > 0.1 then ((best_match, best_score, sources), self)
          else ((''I couldn't find relevant information in the CV to answer that question.'',
                 0.2, []), self))"
  unfolding general_search_def Let_def searched_sections_def
  by (simp only: search_fold_skips_empty [symmetric])

text \<open>
  Claim C4, as amended. On a loaded parser, for a question that none of the keyword
  tests accepts: the score of a section is the number of distinct words the question and
  the section share, divided by the number of question words counted with repetition
  (or by 1 if there is none). If some section with a non-empty text scores above 0.1, the
  answer is the first section, in the order of the mapping, whose score is the highest:
  its text cut to 300 characters and followed by \<open>...\<close>, with that score (above 0.1) as
  confidence and the section as the one source. Otherwise the answer is the fixed message
  with confidence 0.2 and no source.
\<close>

theorem general_search_selects_best:
  assumes "is_loaded self" and "general_question question"
  shows "(\<forall>content. overlap_score env (kept_words env question) content =
            of_nat (card (set (kept_words env question) \<inter> set (kept_words env content))) /
              of_nat (max (length (kept_words env question)) 1)) \<and>
         ((\<exists>entry\<in>set (searched_sections self).
             overlap_score env (kept_words env question) (snd entry) > 0.1) \<longrightarrow>
          (\<exists>before section_name content after.
             searched_sections self = before @ (section_name, content) # after \<and>
             (\<forall>entry\<in>set before. overlap_score env (kept_words env question) (snd entry)
                < overlap_score env (kept_words env question) content) \<and>
             (\<forall>entry\<in>set after. overlap_score env (kept_words env question) (snd entry)
                \<le> overlap_score env (kept_words env question) content) \<and>
             overlap_score env (kept_words env question) content > 0.1 \<and>
             answer_question env self question =
               ((take 300 content @ ''...'', overlap_score env (kept_words env question) content,
                 [section_name]), self))) \<and>
         (\<not> (\<exists>entry\<in>set (searched_sections self).
               overlap_score env (kept_words env question) (snd entry) > 0.1) \<longrightarrow>
          answer_question env self question =
            ((''I couldn't find relevant information in the CV to answer that question.'', 0.2, []),
             self))"
proof -
  let ?qw = "kept_words env question"
  let ?score = "\<lambda>content. overlap_score env ?qw content"
  let ?entries = "searched_sections self"
  let ?fold = "foldl (search_step env ?qw) ([], 0, []) ?entries"
  let ?not_found = "((''I couldn't find relevant information in the CV to answer that question.'',
                 0.2, []), self)"
  have formula: "\<forall>content. ?score content =
      of_nat (card (set ?qw \<inter> set (kept_words env content))) / of_nat (max (length ?qw) 1)"
    by (simp add: overlap_score_def Let_def)
  have route: "answer_question env self question = general_search env self question"
    using assms by (rule general_question_routes)
  from search_fold_best [OF searched_sections_not_empty, of env ?qw "([], 0, [])" self]
  consider (none) "?fold = ([], 0, [])" "\<forall>entry\<in>set ?entries. ?score (snd entry) \<le> 0"
    | (some) before section_name content after
      where "?entries = before @ (section_name, content) # after"
        "\<forall>entry\<in>set before. ?score (snd entry) < ?score content"
        "\<forall>entry\<in>set after. ?score (snd entry) \<le> ?score content"
        "?fold = (take 300 content @ ''...'', ?score content, [section_name])"
    by (auto simp: confidence_def)
  then have "((\<exists>entry\<in>set ?entries. ?score (snd entry) > 0.1) \<longrightarrow>
          (\<exists>before section_name content after.
             ?entries = before @ (section_name, content) # after \<and>
             (\<forall>entry\<in>set before. ?score (snd entry) < ?score content) \<and>
             (\<forall>entry\<in>set after. ?score (snd entry) \<le> ?score content) \<and>
             ?score content > 0.1 \<and>
             answer_question env self question =
               ((take 300 content @ ''...'', ?score content, [section_name]), self))) \<and>
         (\<not> (\<exists>entry\<in>set ?entries. ?score (snd entry) > 0.1) \<longrightarrow>
          answer_question env self question = ?not_found)"
  proof cases
    case none
    have "answer_question env self question = ?not_found"
      by (simp add: route general_search_fold none(1))
    moreover have "\<not> (\<exists>entry\<in>set ?entries. ?score (snd entry) > 0.1)"
      using none(2) by fastforce
    ultimately show ?thesis by blast
  next
    case some
    show ?thesis
    proof (cases "?score content > 0.1")
      case True
      have "answer_question env self question =
          ((take 300 content @ ''...'', ?score content, [section_name]), self)"
        using True by (simp add: route general_search_fold some(4))
      moreover have "\<exists>entry\<in>set ?entries. ?score (snd entry) > 0.1"
        using True some(1) by force
      ultimately show ?thesis
        using some(1,2,3) True by blast
    next
      case False
      have "answer_question env self question = ?not_found"
        using False by (simp add: route general_search_fold some(4))
      moreover have "\<forall>entry\<in>set ?entries. ?score (snd entry) \<le> ?score content"
        using some(1,2,3) by fastforce
      then have "\<not> (\<exists>entry\<in>set ?entries. ?score (snd entry) > 0.1)"
        using False by fastforce
      ultimately show ?thesis by blast
    qed
  qed
  with formula show ?thesis by blast
qed


lemma acme_search_facts:
  "is_loaded acme_parser"
  "general_question ''senior engineer''"
  "general_question ''zebra''"
  "searched_sections acme_parser =
     [(''experience'', str_join [CHR 0x0A] [''Engineer | Acme Corp | 2020-2022'', ''Senior Engineer''])]"
  "overlap_score (example_env acme_cv) (kept_words (example_env acme_cv) ''senior engineer'')
     (str_join [CHR 0x0A] [''Engineer | Acme Corp | 2020-2022'', ''Senior Engineer'']) = 1"
  "\<not> (\<exists>entry\<in>set (searched_sections acme_parser).
        overlap_score (example_env acme_cv) (kept_words (example_env acme_cv) ''zebra'') (snd entry) > 0.1)"
  by code_simp+

theorem general_search_selects_best_witness:
  "is_loaded acme_parser \<and> general_question ''senior engineer'' \<and>
   searched_sections acme_parser =
     [(''experience'', str_join [CHR 0x0A] [''Engineer | Acme Corp | 2020-2022'', ''Senior Engineer''])] \<and>
   overlap_score (example_env acme_cv) (kept_words (example_env acme_cv) ''senior engineer'')
     (str_join [CHR 0x0A] [''Engineer | Acme Corp | 2020-2022'', ''Senior Engineer'']) = 1 \<and>
   answer_question (example_env acme_cv) acme_parser ''senior engineer'' =
     ((take 300 (str_join [CHR 0x0A] [''Engineer | Acme Corp | 2020-2022'', ''Senior Engineer'']) @ ''...'',
       1, [''experience'']), acme_parser) \<and>
   general_question ''zebra'' \<and>
   answer_question (example_env acme_cv) acme_parser ''zebra'' =
     ((''I couldn't find relevant information in the CV to answer that question.'', 0.2, []),
      acme_parser)"
proof -
  define B where "B = str_join [CHR 0x0A] [''Engineer | Acme Corp | 2020-2022'', ''Senior Engineer'']"
  define q where "q = ''senior engineer''"
  define E where "E = example_env acme_cv"
  have g: "general_question q"
    unfolding q_def by (rule acme_search_facts(2))
  have s: "searched_sections acme_parser = [(''experience'', B)]"
    unfolding B_def by (rule acme_search_facts(4))
  have o: "overlap_score E (kept_words E q) B = 1"
    unfolding B_def q_def E_def by (rule acme_search_facts(5))
  have "\<exists>entry\<in>set (searched_sections acme_parser). overlap_score E (kept_words E q) (snd entry) > 0.1"
    by (simp add: s o)
  with general_search_selects_best [OF acme_search_facts(1) g, of E]
  obtain before section_name content after
    where b: "searched_sections acme_parser = before @ (section_name, content) # after"
      "answer_question E acme_parser q =
         ((take 300 content @ ''...'', overlap_score E (kept_words E q) content, [section_name]),
          acme_parser)"
    by blast
  from b(1) s have "before = [] \<and> section_name = ''experience'' \<and> content = B"
    by (simp add: Cons_eq_append_conv)
  with b(2) o have a: "answer_question E acme_parser q = ((take 300 B @ ''...'', 1, [''experience'']), acme_parser)"
    by simp
  have z: "answer_question (example_env acme_cv) acme_parser ''zebra'' =
     ((''I couldn't find relevant information in the CV to answer that question.'', 0.2, []),
      acme_parser)"
    using general_search_selects_best [OF acme_search_facts(1,3), of "example_env acme_cv"]
      acme_search_facts(6) by blast
  show ?thesis
    using acme_search_facts(1,2,3,4,5) a z unfolding B_def q_def E_def by blast
qed

end
